theory Spec2Isabelle
  imports Complex_Main
begin

section \<open>Exceptions\<close>

text \<open>
  The Python exceptions that \<^verbatim>\<open>oj_api_tool.py\<close> raises itself or lets through from
  the libraries it calls. \<open>KeyboardInterrupt\<close> stands for the exceptions that derive from
  \<open>BaseException\<close> only; all the others derive from \<open>Exception\<close>, which is what
  \<^verbatim>\<open>except Exception\<close> catches.
\<close>

datatype exn =
    RuntimeError string
  | ValueError
  | KeyError string
  | TypeError
  | HTTPError nat
  | OSError
  | JSONDecodeError
  | UnicodeDecodeError
  | KeyboardInterrupt

fun is_Exception :: "exn \<Rightarrow> bool" where
  "is_Exception KeyboardInterrupt = False"
| "is_Exception _ = True"

section \<open>Python strings and integers\<close>

text \<open>
  \<^verbatim>\<open>str(n)\<close> and \<^verbatim>\<open>int(s)\<close> for Python's unbounded integers and ASCII strings.
  \<open>str_int\<close> writes the decimal digits, with a minus sign for a negative number.
  \<open>py_int\<close> follows the syntax \<^verbatim>\<open>int\<close> accepts in base 10: white space around the
  literal, one optional sign, then digits, where single underscores may stand between
  digits; anything else is a \<open>ValueError\<close>, here \<open>None\<close>. The interpreter's optional
  limit on the number of digits of a conversion is not modelled.
\<close>

definition digit_chars :: string where
  "digit_chars = ''0123456789''"

definition digit_char :: "int \<Rightarrow> char" where
  "digit_char n = digit_chars ! nat (n mod 10)"

definition digit_val :: "char \<Rightarrow> int option" where
  "digit_val c = map_of (zip digit_chars [0, 1, 2, 3, 4, 5, 6, 7, 8, 9]) c"

function str_digits :: "int \<Rightarrow> string" where
  "str_digits n = (if n < 10 then [digit_char n] else str_digits (n div 10) @ [digit_char n])"
  by pat_completeness auto
termination
  by (relation "measure nat") auto

declare str_digits.simps [simp del]

definition str_int :: "int \<Rightarrow> string" where
  "str_int i = (if i < 0 then CHR ''-'' # str_digits (- i) else str_digits i)"

definition is_space :: "char \<Rightarrow> bool" where
  "is_space c \<longleftrightarrow> c \<in> set [CHR '' '', CHR 0x09, CHR 0x0A, CHR 0x0B, CHR 0x0C, CHR 0x0D]"

definition strip :: "string \<Rightarrow> string" where
  "strip s = rev (dropWhile is_space (rev (dropWhile is_space s)))"

fun parse_digits :: "string \<Rightarrow> bool \<Rightarrow> int \<Rightarrow> int option" where
  "parse_digits [] prev_underscore acc = (if prev_underscore then None else Some acc)"
| "parse_digits (c # cs) prev_underscore acc =
     (if c = CHR ''_'' then (if prev_underscore then None else parse_digits cs True acc)
      else case digit_val c of
             None \<Rightarrow> None
           | Some d \<Rightarrow> parse_digits cs False (10 * acc + d))"

definition parse_unsigned :: "string \<Rightarrow> int option" where
  "parse_unsigned s = (if s = [] \<or> hd s = CHR ''_'' then None else parse_digits s False 0)"

definition py_int :: "string \<Rightarrow> int option" where
  "py_int s =
     (case strip s of
        [] \<Rightarrow> None
      | c # r \<Rightarrow>
          if c = CHR ''-'' then map_option uminus (parse_unsigned r)
          else if c = CHR ''+'' then parse_unsigned r
          else parse_unsigned (c # r))"

text \<open>\<^verbatim>\<open>d.get(k, default)\<close> on a dictionary kept as an association list.\<close>

definition py_get :: "('k \<times> 'v) list \<Rightarrow> 'k \<Rightarrow> 'v \<Rightarrow> 'v" where
  "py_get d k dflt = (case map_of d k of None \<Rightarrow> dflt | Some v \<Rightarrow> v)"

section \<open>Python floats\<close>

text \<open>
  A Python float is an IEEE 754 binary64 number. It is modelled by the rational number it
  denotes; every operation computes the exact result and rounds it to the nearest number
  with a 53-bit significand, ties to the even significand (\<open>fl\<close>). Infinities, NaN,
  subnormal numbers and the sign of zero are outside the model: the scores computed here
  lie between \<open>100 / n\<close> halved and \<open>100\<close> times the number of questions.

  \<open>format_2f\<close> is the format specification \<^verbatim>\<open>.2f\<close>: the decimal expansion rounded
  to two places after the point, ties to the even last digit.
\<close>

type_synonym pyfloat = rat

function bit_length :: "int \<Rightarrow> int" where
  "bit_length n = (if n \<le> 0 then 0 else 1 + bit_length (n div 2))"
  by pat_completeness auto
termination
  by (relation "measure nat") auto

declare bit_length.simps [simp del]

definition pow2 :: "int \<Rightarrow> rat" where
  "pow2 e = (if 0 \<le> e then 2 ^ nat e else 1 / 2 ^ nat (- e))"

definition floor_log2 :: "rat \<Rightarrow> int" where
  "floor_log2 x =
     (let (p, q) = quotient_of x;
          d = bit_length p - bit_length q
      in if pow2 d \<le> x then d else d - 1)"

definition round_half_even :: "rat \<Rightarrow> int" where
  "round_half_even y =
     (let f = \<lfloor>y\<rfloor>; r = y - of_int f
      in if r < 1 / 2 then f else if 1 / 2 < r then f + 1 else if even f then f else f + 1)"

definition fl :: "rat \<Rightarrow> pyfloat" where
  "fl x =
     (if x = 0 then 0
      else let e = floor_log2 \<bar>x\<bar> - 52
           in of_int (round_half_even (x / pow2 e)) * pow2 e)"

definition float_div :: "rat \<Rightarrow> rat \<Rightarrow> pyfloat" where
  "float_div a b = fl (a / b)"

definition float_add :: "rat \<Rightarrow> rat \<Rightarrow> pyfloat" where
  "float_add a b = fl (a + b)"

definition format_2f :: "pyfloat \<Rightarrow> string" where
  "format_2f x =
     (let n = round_half_even (\<bar>x\<bar> * 100);
          body = str_digits (n div 100) @ ''.'' @ [digit_char (n div 10), digit_char n]
      in if x < 0 then CHR ''-'' # body else body)"

section \<open>Rank entries and the question ids\<close>

text \<open>
  A rank entry as the judge's API reports it. A field is \<open>None\<close> when the key is absent
  from the JSON object. The keys of \<open>submission_info\<close> are question ids written as
  strings; its values are records \<open>{is_ac, error_number}\<close> under the ACM rule and
  integer scores under the OI rule. A JSON object is an association list in the order of
  its keys.
\<close>

record user_info =
  username :: "string option"

record acm_info =
  is_ac :: "bool option"
  error_number :: "int option"

record 'v rank_entry =
  user :: "user_info option"
  total_score :: "int option"
  submission_info :: "(string \<times> 'v) list option"

text \<open>\<^verbatim>\<open>e.get('submission_info', {})\<close>\<close>

definition get_submission_info :: "'v rank_entry \<Rightarrow> (string \<times> 'v) list" where
  "get_submission_info e = (case submission_info e of None \<Rightarrow> [] | Some info \<Rightarrow> info)"

text \<open>
  \<^verbatim>\<open>int(q)\<close> for each key of each entry, in the order of the comprehension; the first
  key that is not an integer literal raises \<open>ValueError\<close>.
\<close>

fun parse_keys :: "string list \<Rightarrow> exn + int list" where
  "parse_keys [] = Inr []"
| "parse_keys (q # qs) =
     (case py_int q of
        None \<Rightarrow> Inl ValueError
      | Some i \<Rightarrow> (case parse_keys qs of Inl err \<Rightarrow> Inl err | Inr ids \<Rightarrow> Inr (i # ids)))"

text \<open>
  Lines 151 and 176, the same expression in both scorers:
  \<^verbatim>\<open>sorted({int(q) for e in results for q in e.get('submission_info', {})}, key=int)\<close>.
  The set keeps one copy of each integer (\<open>remdups\<close>), \<^verbatim>\<open>sorted\<close> puts them in
  ascending order (\<open>sort\<close>).
\<close>

definition question_ids :: "'v rank_entry list \<Rightarrow> exn + int list" where
  "question_ids results =
     (case parse_keys (concat (map (\<lambda>e. map fst (get_submission_info e)) results)) of
        Inl err \<Rightarrow> Inl err
      | Inr ids \<Rightarrow> Inr (sort (remdups ids)))"

text \<open>\<^verbatim>\<open>f"Q{idx+1}({qid})"\<close>\<close>

definition header_cell :: "nat \<Rightarrow> int \<Rightarrow> string" where
  "header_cell idx qid = ''Q'' @ str_int (int idx + 1) @ ''('' @ str_int qid @ '')''"

definition question_headers :: "int list \<Rightarrow> string list" where
  "question_headers qids = map (\<lambda>(idx, qid). header_cell idx qid) (enumerate 0 qids)"

section \<open>The scorers\<close>

text \<open>
  What a scorer leaves behind: the rows it wrote to standard output, first the header,
  and the exception that stopped it, if one did. \<^verbatim>\<open>csv.writer\<close> is not modelled; a
  row is the list of its cells.
\<close>

type_synonym csv_output = "string list list \<times> exn option"

text \<open>
  Lines 162-167 of \<^verbatim>\<open>results_to_csv_acm\<close>, the score of one question. \<open>qi\<close> is
  \<^verbatim>\<open>info.get(str(qid), {})\<close>; the empty dictionary is the record without fields.
\<close>

definition empty_info :: acm_info where
  "empty_info = \<lparr>is_ac = None, error_number = None\<rparr>"

definition acm_score :: "pyfloat \<Rightarrow> acm_info \<Rightarrow> pyfloat" where
  "acm_score full qi =
     (if is_ac qi = Some True then
        (let atts = (case error_number qi of None \<Rightarrow> 0 | Some n \<Rightarrow> n) + 1
         in if atts = 1 then full else if atts = 2 then float_div full 2 else 0)
      else 0)"

text \<open>
  The loop over \<open>qids\<close> of lines 161-169; the state is the row built so far and the
  running \<^verbatim>\<open>total_score\<close>.
\<close>

fun acm_cells ::
  "pyfloat \<Rightarrow> (string \<times> acm_info) list \<Rightarrow> int list \<Rightarrow> string list \<times> pyfloat
     \<Rightarrow> string list \<times> pyfloat" where
  "acm_cells full info [] (row, tot) = (row, tot)"
| "acm_cells full info (qid # qids) (row, tot) =
     (let qi = py_get info (str_int qid) empty_info;
          sc = acm_score full qi
      in acm_cells full info qids (row @ [format_2f sc], float_add tot sc))"

text \<open>
  The loop over the entries of lines 156-171. \<^verbatim>\<open>e['user']['username']\<close> raises
  \<open>KeyError\<close> when a key is missing; the rows written before stay written.
\<close>

fun acm_rows ::
  "pyfloat \<Rightarrow> int list \<Rightarrow> acm_info rank_entry list \<Rightarrow> string list list \<Rightarrow> csv_output" where
  "acm_rows full qids [] out = (out, None)"
| "acm_rows full qids (e # es) out =
     (case user e of
        None \<Rightarrow> (out, Some (KeyError ''user''))
      | Some u \<Rightarrow>
          (case username u of
             None \<Rightarrow> (out, Some (KeyError ''username''))
           | Some uname \<Rightarrow>
               (let info = get_submission_info e;
                    (row, tot) = acm_cells full info qids ([uname], 0)
                in acm_rows full qids es (out @ [row @ [format_2f tot]]))))"

definition results_to_csv_acm :: "acm_info rank_entry list \<Rightarrow> csv_output" where
  "results_to_csv_acm results =
     (case question_ids results of
        Inl err \<Rightarrow> ([], Some err)
      | Inr qids \<Rightarrow>
          (let full = (if qids \<noteq> [] then float_div 100 (of_nat (length qids)) else 0);
               header = [''username''] @ question_headers qids @ [''total'']
           in acm_rows full qids results [header]))"

text \<open>
  \<^verbatim>\<open>results_to_csv_oi\<close>, lines 174-188. The default of
  \<^verbatim>\<open>e.get('total_score', sum(info.values()))\<close> is computed whether or not the key is
  present; on integer scores the sum cannot fail.
\<close>

fun oi_cells :: "(string \<times> int) list \<Rightarrow> int list \<Rightarrow> string list \<Rightarrow> string list" where
  "oi_cells info [] row = row"
| "oi_cells info (qid # qids) row =
     (let sc = py_get info (str_int qid) 0
      in oi_cells info qids (row @ [str_int sc]))"

fun oi_rows :: "int list \<Rightarrow> int rank_entry list \<Rightarrow> string list list \<Rightarrow> csv_output" where
  "oi_rows qids [] out = (out, None)"
| "oi_rows qids (e # es) out =
     (case user e of
        None \<Rightarrow> (out, Some (KeyError ''user''))
      | Some u \<Rightarrow>
          (case username u of
             None \<Rightarrow> (out, Some (KeyError ''username''))
           | Some uname \<Rightarrow>
               (let info = get_submission_info e;
                    row = oi_cells info qids [uname];
                    dflt = sum_list (map snd info);
                    tot = (case total_score e of None \<Rightarrow> dflt | Some t \<Rightarrow> t)
                in oi_rows qids es (out @ [row @ [str_int tot]]))))"

definition results_to_csv_oi :: "int rank_entry list \<Rightarrow> csv_output" where
  "results_to_csv_oi results =
     (case question_ids results of
        Inl err \<Rightarrow> ([], Some err)
      | Inr qids \<Rightarrow>
          (let header = [''username''] @ question_headers qids @ [''total_score'']
           in oi_rows qids results [header]))"

section \<open>Session and cookies\<close>

text \<open>
  A cookie of the session's jar, with the attributes the program reads. The jar is the
  list of its cookies in the order in which iterating over \<^verbatim>\<open>session.cookies\<close> yields
  them. The request headers are a dictionary from header name to value.
\<close>

record cookie =
  cookie_name :: string
  cookie_value :: string
  cookie_domain :: string
  cookie_path :: string

record session =
  cookies :: "cookie list"
  headers :: "string \<rightharpoonup> string"

text \<open>
  \<^verbatim>\<open>next((c for c in cs if p(c)), default)\<close>: the first element that satisfies the
  test, the default when there is none.
\<close>

fun py_next :: "('a \<Rightarrow> bool) \<Rightarrow> 'a list \<Rightarrow> 'a \<Rightarrow> 'a" where
  "py_next p [] d = d"
| "py_next p (c # cs) d = (if p c then c else py_next p cs d)"

text \<open>
  \<^verbatim>\<open>set_csrf_header(session)\<close>, lines 69-78. \<open>site_domain\<close> is
  \<^verbatim>\<open>urlparse(site).hostname\<close>, which is \<open>None\<close> for a site URL without a host part.
  The default \<^verbatim>\<open>csrf_cookies[-1]\<close> is evaluated only after the list was found
  non-empty, so it is \<open>last\<close> of a non-empty list.
\<close>

definition set_csrf_header :: "string option \<Rightarrow> session \<Rightarrow> exn + session" where
  "set_csrf_header site_domain s =
     (let csrf_cookies = filter (\<lambda>c. cookie_name c = ''csrftoken'') (cookies s)
      in if csrf_cookies = [] then Inl (RuntimeError ''No csrftoken cookie found in session'')
         else
           let token_cookie =
                 py_next (\<lambda>c. Some (cookie_domain c) = site_domain) csrf_cookies (last csrf_cookies)
           in Inr (s\<lparr>headers := (headers s)(''X-CSRFToken'' \<mapsto> cookie_value token_cookie)\<rparr>))"

section \<open>Fetching the ranks\<close>

text \<open>
  A request for one page of a contest's ranking: the three parameters of the URL
  \<^verbatim>\<open>/api/contest_rank?offset=..&limit=..&contest_id=..\<close>. The reply is either a status
  that \<^verbatim>\<open>raise_for_status\<close> turns into an exception, or a JSON envelope whose
  \<^verbatim>\<open>data\<close> field (\<open>None\<close> when absent) may hold \<^verbatim>\<open>total\<close> and
  \<^verbatim>\<open>results\<close>. The server is a function from requests to replies.
\<close>

record rank_request =
  req_offset :: int
  req_limit :: int
  req_contest_id :: int

record 'e rank_data =
  data_total :: "int option"
  data_results :: "'e list option"

datatype 'a response = HttpError nat | Ok 'a

type_synonym 'e rank_server = "rank_request \<Rightarrow> 'e rank_data option response"

definition PAGE_LIMIT :: int where
  "PAGE_LIMIT = 250"

definition rank_url :: "int \<Rightarrow> int \<Rightarrow> rank_request" where
  "rank_url off contest_id = \<lparr>req_offset = off, req_limit = PAGE_LIMIT, req_contest_id = contest_id\<rparr>"

text \<open>\<^verbatim>\<open>.get('data', {}).get('results', [])\<close>\<close>

definition get_results :: "'e rank_data option \<Rightarrow> 'e list" where
  "get_results d =
     (case d of None \<Rightarrow> [] | Some x \<Rightarrow> (case data_results x of None \<Rightarrow> [] | Some rs \<Rightarrow> rs))"

text \<open>\<^verbatim>\<open>data.get('total', len(data.get('results', [])))\<close>\<close>

definition get_total :: "'e rank_data option \<Rightarrow> int" where
  "get_total d =
     (let dflt = int (length (get_results d))
      in case d of None \<Rightarrow> dflt | Some x \<Rightarrow> (case data_total x of None \<Rightarrow> dflt | Some t \<Rightarrow> t))"

text \<open>\<^verbatim>\<open>range(start, stop, step)\<close> for a positive step, as a list.\<close>

function py_range :: "int \<Rightarrow> int \<Rightarrow> int \<Rightarrow> int list" where
  "py_range start stop step =
     (if 0 < step \<and> start < stop then start # py_range (start + step) stop step else [])"
  by pat_completeness auto
termination
  by (relation "measure (\<lambda>(start, stop, step). nat (stop - start))") auto

declare py_range.simps [simp del]

text \<open>
  The loop of lines 141-145 over the offsets. The state is the list of the requests sent
  so far and the results gathered; a failed request ends the fetch with its exception.
\<close>

fun fetch_pages ::
  "'e rank_server \<Rightarrow> int \<Rightarrow> int list \<Rightarrow> rank_request list \<times> 'e list
     \<Rightarrow> rank_request list \<times> (exn + 'e list)" where
  "fetch_pages server contest_id [] (sent, results) = (sent, Inr results)"
| "fetch_pages server contest_id (off # offs) (sent, results) =
     (let url = rank_url off contest_id
      in case server url of
           HttpError status \<Rightarrow> (sent @ [url], Inl (HTTPError status))
         | Ok d \<Rightarrow> fetch_pages server contest_id offs (sent @ [url], results @ get_results d))"

definition fetch_all_ranks ::
  "'e rank_server \<Rightarrow> int \<Rightarrow> rank_request list \<times> (exn + 'e list)" where
  "fetch_all_ranks server contest_id =
     (let url = rank_url 0 contest_id
      in case server url of
           HttpError status \<Rightarrow> ([url], Inl (HTTPError status))
         | Ok d \<Rightarrow>
             (let tot = get_total d;
                  results = get_results d
              in fetch_pages server contest_id (py_range PAGE_LIMIT tot PAGE_LIMIT)
                   ([url], results)))"

section \<open>The cookie file\<close>

text \<open>
  The files the program touches: a path has a file with its text and its permission bits,
  or nothing. Opening a file for reading needs the owner's read bit, opening an existing
  file for writing the owner's write bit; otherwise \<^verbatim>\<open>open\<close> raises \<open>OSError\<close>.
  A file that \<^verbatim>\<open>open(path, 'w')\<close> creates gets the mode \<^verbatim>\<open>0o644\<close>, which is
  \<open>420\<close>; \<open>save_cookies\<close> changes the mode right after writing.
\<close>

record disk_file =
  file_content :: string
  file_mode :: nat

type_synonym filesystem = "string \<rightharpoonup> disk_file"

definition open_read :: "filesystem \<Rightarrow> string \<Rightarrow> exn + string" where
  "open_read fs path =
     (case fs path of
        None \<Rightarrow> Inl OSError
      | Some f \<Rightarrow> if odd (file_mode f div 256) then Inr (file_content f) else Inl OSError)"

definition open_write :: "filesystem \<Rightarrow> string \<Rightarrow> string \<Rightarrow> exn + filesystem" where
  "open_write fs path contents =
     (case fs path of
        None \<Rightarrow> Inr (fs(path \<mapsto> \<lparr>file_content = contents, file_mode = 420\<rparr>))
      | Some f \<Rightarrow>
          if odd (file_mode f div 128) then Inr (fs(path \<mapsto> f\<lparr>file_content := contents\<rparr>))
          else Inl OSError)"

definition chmod :: "filesystem \<Rightarrow> string \<Rightarrow> nat \<Rightarrow> exn + filesystem" where
  "chmod fs path m =
     (case fs path of
        None \<Rightarrow> Inl OSError
      | Some f \<Rightarrow> Inr (fs(path \<mapsto> f\<lparr>file_mode := m\<rparr>)))"

text \<open>
  \<^verbatim>\<open>load_cookies(session, path)\<close>, lines 34-48. \<open>json_load\<close> is \<^verbatim>\<open>json.load\<close> on
  the text of the file and \<open>cookiejar_from_dict\<close> the function of that name of the
  \<^verbatim>\<open>requests\<close> library; both are parameters, and either may raise. The handler
  \<^verbatim>\<open>except Exception\<close> catches what derives from \<open>Exception\<close> and lets anything
  else through. The logging of verbose mode is left out.
\<close>

definition load_cookies ::
  "(string \<Rightarrow> exn + 'j) \<Rightarrow> ('j \<Rightarrow> exn + cookie list) \<Rightarrow> filesystem \<Rightarrow> session \<Rightarrow> string
     \<Rightarrow> exn + bool \<times> session" where
  "load_cookies json_load cookiejar_from_dict fs s path =
     (if fs path \<noteq> None then
        (case (case open_read fs path of
                 Inl err \<Rightarrow> Inl err
               | Inr contents \<Rightarrow>
                   (case json_load contents of
                      Inl err \<Rightarrow> Inl err
                    | Inr data \<Rightarrow> cookiejar_from_dict data)) of
           Inr jar \<Rightarrow> Inr (True, s\<lparr>cookies := jar\<rparr>)
         | Inl err \<Rightarrow> if is_Exception err then Inr (False, s) else Inl err)
      else Inr (False, s))"

text \<open>
  \<^verbatim>\<open>dict_from_cookiejar\<close>: one key per cookie name, a later cookie of the same name
  replacing the value.
\<close>

fun dict_set :: "'k \<Rightarrow> 'v \<Rightarrow> ('k \<times> 'v) list \<Rightarrow> ('k \<times> 'v) list" where
  "dict_set k v [] = [(k, v)]"
| "dict_set k v ((k', v') # d) = (if k' = k then (k, v) # d else (k', v') # dict_set k v d)"

definition dict_from_cookiejar :: "cookie list \<Rightarrow> (string \<times> string) list" where
  "dict_from_cookiejar jar = foldl (\<lambda>d c. dict_set (cookie_name c) (cookie_value c) d) [] jar"

text \<open>
  \<^verbatim>\<open>save_cookies(session, path)\<close>, lines 51-57; \<open>json_dump\<close> is the text that
  \<^verbatim>\<open>json.dump\<close> writes for a dictionary, and \<open>384\<close> is \<^verbatim>\<open>0o600\<close>.
\<close>

definition save_cookies ::
  "((string \<times> string) list \<Rightarrow> string) \<Rightarrow> filesystem \<Rightarrow> session \<Rightarrow> string
     \<Rightarrow> exn + filesystem" where
  "save_cookies json_dump fs s path =
     (let data = dict_from_cookiejar (cookies s)
      in case open_write fs path (json_dump data) of
           Inl err \<Rightarrow> Inl err
         | Inr fs' \<Rightarrow> chmod fs' path 384)"

section \<open>Logging in\<close>

text \<open>
  The JSON envelope of a reply, \<^verbatim>\<open>{error: string|null, data: ...}\<close>: \<open>env_error\<close> is
  \<open>None\<close> for \<^verbatim>\<open>null\<close>, \<open>env_data\<close> is any JSON value.
\<close>

datatype json =
    JNull
  | JBool bool
  | JNumber int
  | JString string
  | JArray "json list"
  | JObject "(string \<times> json) list"

record envelope =
  env_error :: "string option"
  env_data :: json

record login_payload =
  payload_username :: string
  payload_password :: string
  payload_tfa_code :: "string option"

text \<open>
  \<^verbatim>\<open>do_login(session, username, password, tfa_code)\<close>, lines 95-109. The payload
  carries the code only when \<^verbatim>\<open>tfa_code\<close> is a non-empty string. \<open>post\<close> is
  \<^verbatim>\<open>session.post\<close> on the login URL: given the payload and the session's cookies it
  yields the reply and the cookies the session holds afterwards. The result is the
  returned flag with the session and the files as the call leaves them.
\<close>

definition make_payload :: "string \<Rightarrow> string \<Rightarrow> string option \<Rightarrow> login_payload" where
  "make_payload uname password tfa_code =
     \<lparr>payload_username = uname, payload_password = password,
      payload_tfa_code =
        (case tfa_code of
           None \<Rightarrow> None
         | Some code \<Rightarrow> if code \<noteq> [] then Some code else None)\<rparr>"

definition do_login ::
  "(login_payload \<Rightarrow> cookie list \<Rightarrow> envelope response \<times> cookie list)
     \<Rightarrow> ((string \<times> string) list \<Rightarrow> string) \<Rightarrow> string \<Rightarrow> filesystem \<Rightarrow> session
     \<Rightarrow> string \<Rightarrow> string \<Rightarrow> string option \<Rightarrow> exn + bool \<times> session \<times> filesystem" where
  "do_login post json_dump cookie_file fs s uname password tfa_code =
     (let payload = make_payload uname password tfa_code;
          (resp, jar) = post payload (cookies s);
          s' = s\<lparr>cookies := jar\<rparr>
      in case resp of
           HttpError status \<Rightarrow> Inl (HTTPError status)
         | Ok data \<Rightarrow>
             (let success = (env_error data = None \<and> env_data data = JString ''Succeeded'')
              in if success then
                   (case save_cookies json_dump fs s' cookie_file of
                      Inl err \<Rightarrow> Inl err
                    | Inr fs' \<Rightarrow> Inr (success, s', fs'))
                 else Inr (success, s', fs)))"

section \<open>Notions of the specification\<close>

text \<open>
  The integers that occur as keys of some entry's \<open>submission_info\<close>, and the condition
  that every key is an integer literal, without which \<^verbatim>\<open>int(q)\<close> raises.
\<close>

definition key_ids :: "'v rank_entry list \<Rightarrow> int set" where
  "key_ids results =
     {i. \<exists>e \<in> set results. \<exists>k \<in> set (map fst (get_submission_info e)). py_int k = Some i}"

definition keys_are_integers :: "'v rank_entry list \<Rightarrow> bool" where
  "keys_are_integers results \<longleftrightarrow>
     (\<forall>e \<in> set results. \<forall>k \<in> set (map fst (get_submission_info e)). py_int k \<noteq> None)"

text \<open>\<^verbatim>\<open>e['user']['username']\<close> when both keys are there.\<close>

definition entry_username :: "'v rank_entry \<Rightarrow> string option" where
  "entry_username e = (case user e of None \<Rightarrow> None | Some u \<Rightarrow> username u)"

text \<open>Every entry has a user name, so that no \<open>KeyError\<close> stops a scorer.\<close>

definition usernames_present :: "'v rank_entry list \<Rightarrow> bool" where
  "usernames_present results \<longleftrightarrow> (\<forall>e \<in> set results. entry_username e \<noteq> None)"

text \<open>
  The ACM rule in the words of the specification: the record of the question, if the
  entry has one, earns \<open>full\<close> when it is accepted with \<open>error_number\<close> 0, half of
  \<open>full\<close> when it is accepted with \<open>error_number\<close> 1, and nothing otherwise. A
  record without the field \<open>error_number\<close> counts as one with \<open>error_number\<close> 0.
\<close>

definition error_number_of :: "acm_info \<Rightarrow> int" where
  "error_number_of qi = (case error_number qi of None \<Rightarrow> 0 | Some n \<Rightarrow> n)"

definition acm_spec_score :: "pyfloat \<Rightarrow> acm_info option \<Rightarrow> pyfloat" where
  "acm_spec_score full r =
     (case r of
        None \<Rightarrow> 0
      | Some qi \<Rightarrow>
          if is_ac qi = Some True \<and> error_number_of qi = 0 then full
          else if is_ac qi = Some True \<and> error_number_of qi = 1 then float_div full 2
          else 0)"

text \<open>
  A number written with exactly two decimal places: an integer part of at least one
  digit, possibly signed, a point and two digits.
\<close>

definition two_decimals :: "string \<Rightarrow> bool" where
  "two_decimals s \<longleftrightarrow>
     (case rev s of
        d2 # d1 # dot # ip \<Rightarrow>
          dot = CHR ''.'' \<and> d1 \<in> set digit_chars \<and> d2 \<in> set digit_chars \<and> ip \<noteq> []
            \<and> (\<forall>c \<in> set ip. c \<in> set digit_chars \<or> c = CHR ''-'')
      | _ \<Rightarrow> False)"

text \<open>
  The row that the ACM scorer writes for an entry with a user name: the name, the
  formatted score of each question, and the formatted sum, added up from the left as the
  loop does.
\<close>

definition acm_row :: "pyfloat \<Rightarrow> int list \<Rightarrow> acm_info rank_entry \<Rightarrow> string list" where
  "acm_row full qids e =
     [the (entry_username e)]
       @ map (\<lambda>q. format_2f (acm_score full (py_get (get_submission_info e) (str_int q) empty_info))) qids
       @ [format_2f (foldl float_add 0
            (map (\<lambda>q. acm_score full (py_get (get_submission_info e) (str_int q) empty_info)) qids))]"

text \<open>
  The row that the OI scorer writes for an entry with a user name: the name, the score
  of each question as the server reports it, 0 where it reports none, and the total.
\<close>

definition oi_row :: "int list \<Rightarrow> int rank_entry \<Rightarrow> string list" where
  "oi_row qids e =
     [the (entry_username e)]
       @ map (\<lambda>q. str_int (py_get (get_submission_info e) (str_int q) 0)) qids
       @ [str_int (case total_score e of
                     None \<Rightarrow> sum_list (map snd (get_submission_info e))
                   | Some t \<Rightarrow> t)]"

text \<open>
  Notions for the fetch: a request that the server answers with a success status, the
  results of the page at an offset, and a first page whose \<^verbatim>\<open>data\<close> has no
  \<^verbatim>\<open>total\<close>.
\<close>

definition page_ok :: "'e rank_server \<Rightarrow> int \<Rightarrow> int \<Rightarrow> bool" where
  "page_ok server contest_id off =
     (case server (rank_url off contest_id) of HttpError status \<Rightarrow> False | Ok d \<Rightarrow> True)"

definition pages_ok :: "'e rank_server \<Rightarrow> int \<Rightarrow> int list \<Rightarrow> bool" where
  "pages_ok server contest_id offs \<longleftrightarrow> (\<forall>off \<in> set offs. page_ok server contest_id off)"

definition page_of :: "'e rank_server \<Rightarrow> int \<Rightarrow> int \<Rightarrow> 'e list" where
  "page_of server contest_id off =
     (case server (rank_url off contest_id) of HttpError status \<Rightarrow> [] | Ok d \<Rightarrow> get_results d)"

definition lacks_total :: "'e rank_data option \<Rightarrow> bool" where
  "lacks_total d = (case d of None \<Rightarrow> True | Some x \<Rightarrow> data_total x = None)"

text \<open>
  A path that \<^verbatim>\<open>open(path, 'w')\<close> can write: no file yet, or a file with the owner's
  write bit. The file that \<open>save_cookies\<close> leaves there.
\<close>

definition writable :: "filesystem \<Rightarrow> string \<Rightarrow> bool" where
  "writable fs path = (case fs path of None \<Rightarrow> True | Some f \<Rightarrow> odd (file_mode f div 128))"

definition saved_file :: "((string \<times> string) list \<Rightarrow> string) \<Rightarrow> cookie list \<Rightarrow> disk_file" where
  "saved_file json_dump jar =
     \<lparr>file_content = json_dump (dict_from_cookiejar jar), file_mode = 384\<rparr>"

text \<open>
  A \<open>submission_info\<close> whose keys are pairwise different and are the decimal strings
  that \<^verbatim>\<open>str\<close> writes: \<^verbatim>\<open>str(int(k)) == k\<close>.
\<close>

definition canonical_keys :: "(string \<times> 'v) list \<Rightarrow> bool" where
  "canonical_keys info \<longleftrightarrow>
     distinct (map fst info)
       \<and> (\<forall>k \<in> set (map fst info). \<exists>i. py_int k = Some i \<and> str_int i = k)"

section \<open>Example inputs\<close>

text \<open>
  A session that holds three \<open>csrftoken\<close> cookies of different domains, and a session
  cookie between them.
\<close>

definition example_jar :: "cookie list" where
  "example_jar =
     [\<lparr>cookie_name = ''csrftoken'', cookie_value = ''tokenA'',
        cookie_domain = ''mirror.example.org'', cookie_path = ''/''\<rparr>,
      \<lparr>cookie_name = ''sessionid'', cookie_value = ''s3ss10n'',
        cookie_domain = ''oj.example.org'', cookie_path = ''/''\<rparr>,
      \<lparr>cookie_name = ''csrftoken'', cookie_value = ''tokenB'',
        cookie_domain = ''oj.example.org'', cookie_path = ''/''\<rparr>,
      \<lparr>cookie_name = ''csrftoken'', cookie_value = ''tokenC'',
        cookie_domain = ''cdn.example.org'', cookie_path = ''/''\<rparr>]"

definition example_session :: session where
  "example_session = \<lparr>cookies = example_jar, headers = Map.empty\<rparr>"

text \<open>
  Three entries under the ACM rule. The keys sort as numbers, not as strings; the record
  of the second entry for question 10 has no \<open>error_number\<close>; the third entry has no
  \<open>submission_info\<close>.
\<close>

definition example_acm :: "acm_info rank_entry list" where
  "example_acm =
     [\<lparr>user = Some \<lparr>username = Some ''alice''\<rparr>, total_score = None,
        submission_info = Some
          [(''2'', \<lparr>is_ac = Some True, error_number = Some 0\<rparr>),
           (''10'', \<lparr>is_ac = Some True, error_number = Some 1\<rparr>)]\<rparr>,
      \<lparr>user = Some \<lparr>username = Some ''bob''\<rparr>, total_score = None,
        submission_info = Some
          [(''10'', \<lparr>is_ac = Some True, error_number = None\<rparr>),
           (''1'', \<lparr>is_ac = Some False, error_number = Some 3\<rparr>)]\<rparr>,
      \<lparr>user = Some \<lparr>username = Some ''carol''\<rparr>, total_score = None,
        submission_info = None\<rparr>]"

text \<open>
  Two entries under the OI rule; the first reports a \<open>total_score\<close> that is not the
  sum of its scores, the second reports none.
\<close>

definition example_oi :: "int rank_entry list" where
  "example_oi =
     [\<lparr>user = Some \<lparr>username = Some ''alice''\<rparr>, total_score = Some 150,
        submission_info = Some [(''2'', 40), (''10'', 100)]\<rparr>,
      \<lparr>user = Some \<lparr>username = Some ''bob''\<rparr>, total_score = None,
        submission_info = Some [(''10'', 30), (''1'', 25)]\<rparr>]"

text \<open>
  A contest with the questions 1 and 2 in which the only contestant submitted to
  question 1 alone, so that question 2 occurs in no \<open>submission_info\<close>.
\<close>

definition example_one_attempt :: "acm_info rank_entry list" where
  "example_one_attempt =
     [\<lparr>user = Some \<lparr>username = Some ''alice''\<rparr>, total_score = None,
        submission_info = Some [(''1'', \<lparr>is_ac = Some True, error_number = Some 0\<rparr>)]\<rparr>]"

text \<open>
  A server that holds 600 entries, numbered from 0, and serves them in pages of the
  requested size with the total; and a server that has entries at every offset and
  sends two of them per page without a total.
\<close>

definition example_server :: "int rank_server" where
  "example_server rq =
     Ok (Some \<lparr>data_total = Some 600,
               data_results = Some (filter (\<lambda>i. i < 600)
                                      [req_offset rq, req_offset rq + 125])\<rparr>)"

definition short_page_server :: "int rank_server" where
  "short_page_server rq =
     Ok (Some \<lparr>data_total = None, data_results = Some [req_offset rq, req_offset rq + 1]\<rparr>)"

text \<open>
  Stand-ins for the JSON library: a reader that accepts the empty object only, a jar
  builder, and a writer. A judge that accepts one password and sets a session cookie.
\<close>

definition example_json_load :: "string \<Rightarrow> exn + (string \<times> string) list" where
  "example_json_load contents = (if contents = ''{}'' then Inr [] else Inl JSONDecodeError)"

definition example_cookiejar_from_dict :: "(string \<times> string) list \<Rightarrow> exn + cookie list" where
  "example_cookiejar_from_dict d =
     Inr (map (\<lambda>(k, v). \<lparr>cookie_name = k, cookie_value = v, cookie_domain = [],
                            cookie_path = ''/''\<rparr>) d)"

definition example_json_dump :: "(string \<times> string) list \<Rightarrow> string" where
  "example_json_dump d = concat (map (\<lambda>(k, v). k @ ''='' @ v @ '';'') d)"

definition example_post :: "login_payload \<Rightarrow> cookie list \<Rightarrow> envelope response \<times> cookie list" where
  "example_post payload jar =
     (if payload_password payload = ''secret''
      then (Ok \<lparr>env_error = None, env_data = JString ''Succeeded''\<rparr>,
            jar @ [\<lparr>cookie_name = ''sessionid'', cookie_value = ''abc'',
                     cookie_domain = ''oj.example.org'', cookie_path = ''/''\<rparr>])
      else (Ok \<lparr>env_error = Some ''error'',
                 env_data = JString ''Invalid username or password''\<rparr>, jar))"

definition example_files :: filesystem where
  "example_files =
     [''empty.json'' \<mapsto> \<lparr>file_content = ''{}'', file_mode = 384\<rparr>,
      ''broken.json'' \<mapsto> \<lparr>file_content = ''{sessionid'', file_mode = 384\<rparr>,
      ''locked.json'' \<mapsto> \<lparr>file_content = ''{}'', file_mode = 0\<rparr>]"

section \<open>Properties of the CSRF header\<close>

lemma py_next_first:
  "\<forall>c \<in> set pre. \<not> p c \<Longrightarrow> p c \<Longrightarrow> py_next p (pre @ c # post) d = c"
  by (induction pre) auto

lemma py_next_default: "\<forall>c \<in> set cs. \<not> p c \<Longrightarrow> py_next p cs d = d"
  by (induction cs) auto

lemma filter_empty_iff: "filter p xs = [] \<longleftrightarrow> (\<forall>x \<in> set xs. \<not> p x)"
  by (induction xs) auto

text \<open>
  C6. \<open>set_csrf_header\<close> raises its error exactly when the session has no cookie named
  \<open>csrftoken\<close>. Otherwise it returns the session with the header \<open>X-CSRFToken\<close> set:
  when some \<open>csrftoken\<close> cookie has the site's hostname as its domain, to the value of
  the first such cookie (whatever other \<open>csrftoken\<close> cookies precede or follow it), and
  when none has, to the value of the last \<open>csrftoken\<close> cookie.
\<close>

theorem set_csrf_header_selection:
  fixes s :: session
  defines "csrf \<equiv> filter (\<lambda>c. cookie_name c = ''csrftoken'') (cookies s)"
  shows "((\<exists>msg. set_csrf_header site_domain s = Inl (RuntimeError msg))
            \<longleftrightarrow> (\<forall>c \<in> set (cookies s). cookie_name c \<noteq> ''csrftoken''))
       \<and> ((\<exists>e. set_csrf_header site_domain s = Inl e)
            \<longleftrightarrow> (\<forall>c \<in> set (cookies s). cookie_name c \<noteq> ''csrftoken''))
       \<and> (\<forall>pre c post.
             csrf = pre @ c # post \<and> Some (cookie_domain c) = site_domain
               \<and> (\<forall>c' \<in> set pre. Some (cookie_domain c') \<noteq> site_domain)
             \<longrightarrow> set_csrf_header site_domain s
                   = Inr (s\<lparr>headers := (headers s)(''X-CSRFToken'' \<mapsto> cookie_value c)\<rparr>))
       \<and> (csrf \<noteq> [] \<and> (\<forall>c \<in> set csrf. Some (cookie_domain c) \<noteq> site_domain)
             \<longrightarrow> set_csrf_header site_domain s
                   = Inr (s\<lparr>headers := (headers s)(''X-CSRFToken'' \<mapsto> cookie_value (last csrf))\<rparr>))"
proof -
  have empty: "csrf = [] \<longleftrightarrow> (\<forall>c \<in> set (cookies s). cookie_name c \<noteq> ''csrftoken'')"
    unfolding csrf_def by (simp add: filter_empty_iff)
  have err: "(\<exists>e. set_csrf_header site_domain s = Inl e) \<longleftrightarrow> csrf = []"
    unfolding csrf_def set_csrf_header_def by (simp add: Let_def)
  have err': "(\<exists>msg. set_csrf_header site_domain s = Inl (RuntimeError msg)) \<longleftrightarrow> csrf = []"
    unfolding csrf_def set_csrf_header_def by (simp add: Let_def)
  have first: "set_csrf_header site_domain s
                 = Inr (s\<lparr>headers := (headers s)(''X-CSRFToken'' \<mapsto> cookie_value c)\<rparr>)"
    if "csrf = pre @ c # post" "Some (cookie_domain c) = site_domain"
       "\<forall>c' \<in> set pre. Some (cookie_domain c') \<noteq> site_domain" for pre c post
  proof -
    have "py_next (\<lambda>c. Some (cookie_domain c) = site_domain) (pre @ c # post) (last csrf) = c"
      using that(2,3) by (intro py_next_first) auto
    then show ?thesis
      using that(1) unfolding csrf_def set_csrf_header_def by (simp add: Let_def)
  qed
  have fallback: "set_csrf_header site_domain s
                 = Inr (s\<lparr>headers := (headers s)(''X-CSRFToken'' \<mapsto> cookie_value (last csrf))\<rparr>)"
    if "csrf \<noteq> []" "\<forall>c \<in> set csrf. Some (cookie_domain c) \<noteq> site_domain"
  proof -
    have "py_next (\<lambda>c. Some (cookie_domain c) = site_domain) csrf (last csrf) = last csrf"
      using that(2) by (intro py_next_default) auto
    then show ?thesis
      using that(1) unfolding csrf_def set_csrf_header_def by (simp add: Let_def)
  qed
  show ?thesis
    using empty err err' first fallback by blast
qed

theorem set_csrf_header_selection_witness:
  "set_csrf_header (Some ''oj.example.org'') example_session
     = Inr (example_session\<lparr>headers := [''X-CSRFToken'' \<mapsto> ''tokenB'']\<rparr>)
   \<and> set_csrf_header (Some ''elsewhere.example.org'') example_session
     = Inr (example_session\<lparr>headers := [''X-CSRFToken'' \<mapsto> ''tokenC'']\<rparr>)
   \<and> (\<exists>msg. set_csrf_header (Some ''oj.example.org'') (example_session\<lparr>cookies := []\<rparr>)
         = Inl (RuntimeError msg))"
proof -
  let ?A = "example_jar ! 0" and ?B = "example_jar ! 2" and ?C = "example_jar ! 3"
  have csrf: "filter (\<lambda>c. cookie_name c = ''csrftoken'') (cookies example_session)
                = [?A] @ ?B # [?C]"
    by (simp add: example_session_def example_jar_def)
  have "set_csrf_header (Some ''oj.example.org'') example_session
          = Inr (example_session\<lparr>headers :=
                   (headers example_session)(''X-CSRFToken'' \<mapsto> cookie_value ?B)\<rparr>)"
  proof (rule set_csrf_header_selection
                [THEN conjunct2, THEN conjunct2, THEN conjunct1, rule_format,
                 of example_session "[?A]" ?B "[?C]" "Some ''oj.example.org''"])
    show "filter (\<lambda>c. cookie_name c = ''csrftoken'') (cookies example_session)
            = [?A] @ ?B # [?C]
          \<and> Some (cookie_domain ?B) = Some ''oj.example.org''
          \<and> (\<forall>c' \<in> set [?A]. Some (cookie_domain c') \<noteq> Some ''oj.example.org'')"
      using csrf by (simp add: example_jar_def)
  qed
  then have site: "set_csrf_header (Some ''oj.example.org'') example_session
          = Inr (example_session\<lparr>headers := [''X-CSRFToken'' \<mapsto> ''tokenB'']\<rparr>)"
    by (simp add: example_session_def example_jar_def)
  have "set_csrf_header (Some ''elsewhere.example.org'') example_session
          = Inr (example_session\<lparr>headers :=
                   (headers example_session)(''X-CSRFToken'' \<mapsto>
                      cookie_value (last (filter (\<lambda>c. cookie_name c = ''csrftoken'')
                                            (cookies example_session))))\<rparr>)"
    using set_csrf_header_selection [of "Some ''elsewhere.example.org''" example_session]
    by (simp add: example_session_def example_jar_def)
  then have other: "set_csrf_header (Some ''elsewhere.example.org'') example_session
          = Inr (example_session\<lparr>headers := [''X-CSRFToken'' \<mapsto> ''tokenC'']\<rparr>)"
    by (simp add: example_session_def example_jar_def)
  have none: "\<exists>msg. set_csrf_header (Some ''oj.example.org'') (example_session\<lparr>cookies := []\<rparr>)
                = Inl (RuntimeError msg)"
    using set_csrf_header_selection
            [of "Some ''oj.example.org''" "example_session\<lparr>cookies := []\<rparr>"]
    by simp
  show ?thesis
    using site other none by simp
qed

section \<open>The question ids and the ACM table\<close>

lemma parse_keys_Inr:
  "\<forall>k \<in> set ks. py_int k \<noteq> None \<Longrightarrow> parse_keys ks = Inr (map (\<lambda>k. the (py_int k)) ks)"
  by (induction ks) auto

lemma question_ids_Inr:
  assumes "keys_are_integers results"
  shows "question_ids results
           = Inr (sort (remdups (map (\<lambda>k. the (py_int k))
                    (concat (map (\<lambda>e. map fst (get_submission_info e)) results)))))"
proof -
  have "\<forall>k \<in> set (concat (map (\<lambda>e. map fst (get_submission_info e)) results)). py_int k \<noteq> None"
    using assms unfolding keys_are_integers_def by auto
  then show ?thesis
    unfolding question_ids_def by (simp add: parse_keys_Inr)
qed

lemma question_ids_sorted_set:
  assumes "keys_are_integers results"
  obtains qids where "question_ids results = Inr qids" "sorted qids" "distinct qids"
    "set qids = key_ids results"
proof -
  let ?ks = "concat (map (\<lambda>e. map fst (get_submission_info e)) results)"
  let ?qs = "sort (remdups (map (\<lambda>k. the (py_int k)) ?ks))"
  have all: "\<forall>k \<in> set ?ks. py_int k \<noteq> None"
    using assms unfolding keys_are_integers_def by auto
  have "set ?qs = (\<lambda>k. the (py_int k)) ` set ?ks"
    by simp
  also have "\<dots> = key_ids results"
  proof (intro set_eqI iffI)
    fix i assume "i \<in> (\<lambda>k. the (py_int k)) ` set ?ks"
    then obtain k where k: "k \<in> set ?ks" "i = the (py_int k)" by blast
    from k(1) all have "py_int k \<noteq> None" by blast
    with k(2) have ki: "py_int k = Some i" by auto
    from k(1) obtain e where "e \<in> set results" "k \<in> set (map fst (get_submission_info e))"
      by auto
    with ki show "i \<in> key_ids results" unfolding key_ids_def by blast
  next
    fix i assume "i \<in> key_ids results"
    then obtain e k where "e \<in> set results" "k \<in> set (map fst (get_submission_info e))"
      "py_int k = Some i" unfolding key_ids_def by blast
    then have "k \<in> set ?ks" "the (py_int k) = i" by auto
    then show "i \<in> (\<lambda>k. the (py_int k)) ` set ?ks" by blast
  qed
  finally have "set ?qs = key_ids results" .
  moreover have "sorted ?qs" "distinct ?qs" by simp_all
  ultimately show ?thesis
    using that question_ids_Inr [OF assms] by blast
qed

lemma acm_cells_eq:
  "acm_cells full info qids (row, tot)
     = (row @ map (\<lambda>q. format_2f (acm_score full (py_get info (str_int q) empty_info))) qids,
        foldl float_add tot (map (\<lambda>q. acm_score full (py_get info (str_int q) empty_info)) qids))"
  by (induction qids arbitrary: row tot) (simp_all add: Let_def)


lemma question_ids_eq:
  assumes "keys_are_integers results"
  shows "question_ids results = Inr (sorted_list_of_set (key_ids results))"
    and "finite (key_ids results)"
proof -
  obtain qids where q: "question_ids results = Inr qids" "sorted qids" "distinct qids"
    "set qids = key_ids results"
    using question_ids_sorted_set [OF assms] by blast
  show "finite (key_ids results)"
    using q(4) by (metis List.finite_set)
  have "sorted_list_of_set (set qids) = qids"
    using q(2,3) by (simp add: sorted_list_of_set.idem_if_sorted_distinct)
  then show "question_ids results = Inr (sorted_list_of_set (key_ids results))"
    using q(1,4) by simp
qed

lemma acm_rows_eq:
  "\<forall>e \<in> set es. entry_username e \<noteq> None
     \<Longrightarrow> acm_rows full qids es out = (out @ map (acm_row full qids) es, None)"
proof (induction es arbitrary: out)
  case Nil
  then show ?case by simp
next
  case (Cons e es)
  from Cons.prems obtain u uname where u: "user e = Some u" "username u = Some uname"
    by (auto simp: entry_username_def split: option.splits)
  have rest: "\<forall>e \<in> set es. entry_username e \<noteq> None"
    using Cons.prems by simp
  show ?case
    using u by (simp add: Let_def acm_cells_eq Cons.IH [OF rest] acm_row_def entry_username_def)
qed

lemma acm_score_spec:
  "acm_score full (py_get info k empty_info) = acm_spec_score full (map_of info k)"
  by (auto simp: acm_score_def acm_spec_score_def py_get_def empty_info_def error_number_of_def
      split: option.splits)


lemma digit_char_in: "digit_char n \<in> set digit_chars"
proof -
  have "nat (n mod 10) < length digit_chars"
    by (simp add: digit_chars_def)
  then show ?thesis
    unfolding digit_char_def by (rule nth_mem)
qed

lemma str_digits_nonempty: "str_digits n \<noteq> []"
  by (subst str_digits.simps) simp

lemma str_digits_in: "set (str_digits n) \<subseteq> set digit_chars"
proof (induction n rule: str_digits.induct)
  case (1 n)
  show ?case
  proof (cases "n < 10")
    case True
    then show ?thesis
      by (subst str_digits.simps) (simp add: digit_char_in)
  next
    case False
    with 1 show ?thesis
      by (subst str_digits.simps) (simp add: digit_char_in)
  qed
qed

lemma two_decimals_format_2f: "two_decimals (format_2f x)"
proof -
  define n where "n = round_half_even (\<bar>x\<bar> * 100)"
  have ip: "str_digits (n div 100) \<noteq> []" "\<forall>c \<in> set (str_digits (n div 100)). c \<in> set digit_chars"
    using str_digits_nonempty str_digits_in by auto
  show ?thesis
    using ip digit_char_in [of "n div 10"] digit_char_in [of n]
    unfolding format_2f_def two_decimals_def n_def [symmetric] Let_def
    by (cases "rev (str_digits (n div 100))") auto
qed

lemma results_to_csv_acm_table:
  assumes "keys_are_integers results" and "usernames_present results"
  shows "results_to_csv_acm results
           = (let qids = sorted_list_of_set (key_ids results);
                  full = (if qids \<noteq> [] then float_div 100 (of_nat (length qids)) else 0)
              in (([''username''] @ question_headers qids @ [''total''])
                    # map (acm_row full qids) results, None))"
  unfolding results_to_csv_acm_def
  by (simp add: question_ids_eq(1) [OF assms(1)] acm_rows_eq [OF assms(2) [unfolded usernames_present_def]] Let_def)

lemma acm_rows_prefix: "\<exists>more. fst (acm_rows full qids es out) = out @ more"
proof (induction es arbitrary: out)
  case Nil
  then show ?case by simp
next
  case (Cons e es)
  show ?case
  proof (cases "entry_username e")
    case None
    then show ?thesis
      by (auto simp: entry_username_def split: option.splits)
  next
    case (Some uname)
    then obtain u where u: "user e = Some u" "username u = Some uname"
      by (auto simp: entry_username_def split: option.splits)
    obtain row tot where c: "acm_cells full (get_submission_info e) qids ([uname], 0) = (row, tot)"
      by (cases "acm_cells full (get_submission_info e) qids ([uname], 0)") auto
    from Cons.IH [of "out @ [row @ [format_2f tot]]"]
    obtain more where "fst (acm_rows full qids es (out @ [row @ [format_2f tot]]))
                         = (out @ [row @ [format_2f tot]]) @ more" by blast
    then show ?thesis
      using u c by (simp add: Let_def)
  qed
qed

lemma oi_rows_prefix: "\<exists>more. fst (oi_rows qids es out) = out @ more"
proof (induction es arbitrary: out)
  case Nil
  then show ?case by simp
next
  case (Cons e es)
  show ?case
  proof (cases "entry_username e")
    case None
    then show ?thesis
      by (auto simp: entry_username_def split: option.splits)
  next
    case (Some uname)
    then obtain u where u: "user e = Some u" "username u = Some uname"
      by (auto simp: entry_username_def split: option.splits)
    let ?row = "oi_cells (get_submission_info e) qids [uname]
                  @ [str_int (case total_score e of
                                None \<Rightarrow> sum_list (map snd (get_submission_info e))
                              | Some t \<Rightarrow> t)]"
    from Cons.IH [of "out @ [?row]"]
    obtain more where "fst (oi_rows qids es (out @ [?row])) = (out @ [?row]) @ more" by blast
    then show ?thesis
      using u by (simp add: Let_def)
  qed
qed

text \<open>
  C1. When every key of every \<open>submission_info\<close> is an integer literal, the expression
  both scorers evaluate for their columns yields the integers that occur as keys of some
  entry, each once, in ascending order. \<open>results_to_csv_acm\<close> and
  \<open>results_to_csv_oi\<close> write the header of exactly these columns and run their loop
  over the entries with exactly this list.
\<close>

theorem question_id_columns:
  fixes acm_results :: "acm_info rank_entry list" and oi_results :: "int rank_entry list"
  shows "(keys_are_integers acm_results \<longrightarrow>
            (let qids = sorted_list_of_set (key_ids acm_results)
             in question_ids acm_results = Inr qids
                \<and> sorted qids \<and> distinct qids \<and> set qids = key_ids acm_results
                \<and> hd (fst (results_to_csv_acm acm_results))
                    = [''username''] @ question_headers qids @ [''total'']
                \<and> (\<exists>full. results_to_csv_acm acm_results
                      = acm_rows full qids acm_results
                          [[''username''] @ question_headers qids @ [''total'']])))
       \<and> (keys_are_integers oi_results \<longrightarrow>
            (let qids = sorted_list_of_set (key_ids oi_results)
             in question_ids oi_results = Inr qids
                \<and> sorted qids \<and> distinct qids \<and> set qids = key_ids oi_results
                \<and> hd (fst (results_to_csv_oi oi_results))
                    = [''username''] @ question_headers qids @ [''total_score'']
                \<and> results_to_csv_oi oi_results
                      = oi_rows qids oi_results
                          [[''username''] @ question_headers qids @ [''total_score'']]))"
proof (intro conjI impI)
  assume k: "keys_are_integers acm_results"
  let ?qids = "sorted_list_of_set (key_ids acm_results)"
  let ?header = "[''username''] @ question_headers ?qids @ [''total'']"
  note q = question_ids_eq [OF k]
  have srt: "sorted ?qids" "distinct ?qids" "set ?qids = key_ids acm_results"
    using q(2) by simp_all
  obtain full where run: "results_to_csv_acm acm_results = acm_rows full ?qids acm_results [?header]"
    unfolding results_to_csv_acm_def by (simp add: q(1) Let_def)
  obtain more where "fst (acm_rows full ?qids acm_results [?header]) = [?header] @ more"
    using acm_rows_prefix by blast
  with run have "hd (fst (results_to_csv_acm acm_results)) = ?header"
    by simp
  with q(1) srt run
  show "let qids = sorted_list_of_set (key_ids acm_results)
        in question_ids acm_results = Inr qids
           \<and> sorted qids \<and> distinct qids \<and> set qids = key_ids acm_results
           \<and> hd (fst (results_to_csv_acm acm_results))
               = [''username''] @ question_headers qids @ [''total'']
           \<and> (\<exists>full. results_to_csv_acm acm_results
                 = acm_rows full qids acm_results
                     [[''username''] @ question_headers qids @ [''total'']])"
    unfolding Let_def by blast
next
  assume k: "keys_are_integers oi_results"
  let ?qids = "sorted_list_of_set (key_ids oi_results)"
  let ?header = "[''username''] @ question_headers ?qids @ [''total_score'']"
  note q = question_ids_eq [OF k]
  have srt: "sorted ?qids" "distinct ?qids" "set ?qids = key_ids oi_results"
    using q(2) by simp_all
  have run: "results_to_csv_oi oi_results = oi_rows ?qids oi_results [?header]"
    unfolding results_to_csv_oi_def by (simp add: q(1) Let_def)
  obtain more where "fst (oi_rows ?qids oi_results [?header]) = [?header] @ more"
    using oi_rows_prefix by blast
  with run have "hd (fst (results_to_csv_oi oi_results)) = ?header"
    by simp
  with q(1) srt run
  show "let qids = sorted_list_of_set (key_ids oi_results)
        in question_ids oi_results = Inr qids
           \<and> sorted qids \<and> distinct qids \<and> set qids = key_ids oi_results
           \<and> hd (fst (results_to_csv_oi oi_results))
               = [''username''] @ question_headers qids @ [''total_score'']
           \<and> results_to_csv_oi oi_results
                 = oi_rows qids oi_results
                     [[''username''] @ question_headers qids @ [''total_score'']]"
    unfolding Let_def by blast
qed


theorem question_id_columns_witness:
  "keys_are_integers example_acm \<and> keys_are_integers example_oi
   \<and> question_ids example_acm = Inr [1, 2, 10]
   \<and> hd (fst (results_to_csv_acm example_acm))
       = [''username'', ''Q1(1)'', ''Q2(2)'', ''Q3(10)'', ''total'']
   \<and> question_ids example_oi = Inr [1, 2, 10]
   \<and> hd (fst (results_to_csv_oi example_oi))
       = [''username'', ''Q1(1)'', ''Q2(2)'', ''Q3(10)'', ''total_score'']"
proof -
  have ka: "keys_are_integers example_acm" by code_simp
  have ko: "keys_are_integers example_oi" by code_simp
  have qa: "question_ids example_acm = Inr [1, 2, 10]" by code_simp
  have qo: "question_ids example_oi = Inr [1, 2, 10]" by code_simp
  have hs: "question_headers [1, 2, 10] = [''Q1(1)'', ''Q2(2)'', ''Q3(10)'']" by code_simp
  note cols = question_id_columns [of example_acm example_oi]
  from cols ka have a: "question_ids example_acm = Inr (sorted_list_of_set (key_ids example_acm))"
    "hd (fst (results_to_csv_acm example_acm))
       = [''username''] @ question_headers (sorted_list_of_set (key_ids example_acm)) @ [''total'']"
    unfolding Let_def by blast+
  from cols ko have o: "question_ids example_oi = Inr (sorted_list_of_set (key_ids example_oi))"
    "hd (fst (results_to_csv_oi example_oi))
       = [''username''] @ question_headers (sorted_list_of_set (key_ids example_oi))
           @ [''total_score'']"
    unfolding Let_def by blast+
  from a(1) qa have sa: "sorted_list_of_set (key_ids example_acm) = [1, 2, 10]" by simp
  from o(1) qo have so: "sorted_list_of_set (key_ids example_oi) = [1, 2, 10]" by simp
  show ?thesis
    using ka ko qa qo a(2) o(2) by (simp add: sa so hs)
qed

section \<open>The ACM scores\<close>

lemma acm_row_spec:
  "acm_row full qids e
     = [the (entry_username e)]
         @ map (\<lambda>q. format_2f (acm_spec_score full (map_of (get_submission_info e) (str_int q)))) qids
         @ [format_2f (foldl float_add 0
              (map (\<lambda>q. acm_spec_score full (map_of (get_submission_info e) (str_int q))) qids))]"
  by (simp add: acm_row_def acm_score_spec)

lemma acm_row_cells: "\<forall>cell \<in> set (tl (acm_row full qids e)). two_decimals cell"
  by (auto simp: acm_row_def two_decimals_format_2f)

text \<open>
  C2. Let every key be an integer literal and every entry have a user name, so that the
  ACM scorer runs to its end. With \<open>full\<close> the float quotient of 100 by the number of
  distinct questions (0 when there is none), the scorer writes the header and then, for
  each entry, its name, for each question the score of the record stored under the
  question's id, namely \<open>full\<close> when \<open>is_ac\<close> is true and \<open>error_number\<close> is 0, half
  of \<open>full\<close> when \<open>is_ac\<close> is true and \<open>error_number\<close> is 1, and 0 otherwise, also
  when there is no record, and last the sum of these scores, added from the left in
  float arithmetic. Every score and every total is written with exactly two decimal
  places.
\<close>

theorem results_to_csv_acm_scores:
  assumes "keys_are_integers results" and "usernames_present results"
  defines "qids \<equiv> sorted_list_of_set (key_ids results)"
  defines "full \<equiv> (if card (key_ids results) = 0 then 0
                     else float_div 100 (of_nat (card (key_ids results))))"
  defines "score \<equiv> \<lambda>e q. acm_spec_score full (map_of (get_submission_info e) (str_int q))"
  shows "results_to_csv_acm results
           = (([''username''] @ question_headers qids @ [''total''])
                # map (\<lambda>e. [the (entry_username e)]
                              @ map (\<lambda>q. format_2f (score e q)) qids
                              @ [format_2f (foldl float_add 0 (map (score e) qids))]) results,
              None)
       \<and> (\<forall>row \<in> set (tl (fst (results_to_csv_acm results))).
             \<forall>cell \<in> set (tl row). two_decimals cell)"
proof -
  have fin: "finite (key_ids results)"
    using question_ids_eq(2) [OF assms(1)] .
  have len: "length qids = card (key_ids results)"
    unfolding qids_def using fin by simp
  have full: "(if qids \<noteq> [] then float_div 100 (of_nat (length qids)) else 0) = full"
    unfolding full_def len [symmetric] by simp
  have table: "results_to_csv_acm results
                 = (([''username''] @ question_headers qids @ [''total''])
                      # map (acm_row full qids) results, None)"
    using results_to_csv_acm_table [OF assms(1,2)] full
    unfolding qids_def by (simp add: Let_def)
  have rows: "acm_row full qids
                = (\<lambda>e. [the (entry_username e)]
                         @ map (\<lambda>q. format_2f (score e q)) qids
                         @ [format_2f (foldl float_add 0 (map (score e) qids))])"
    unfolding score_def by (rule ext) (rule acm_row_spec)
  have cells: "\<forall>row \<in> set (tl (fst (results_to_csv_acm results))).
                 \<forall>cell \<in> set (tl row). two_decimals cell"
    unfolding table using acm_row_cells by auto
  show ?thesis
    using table cells unfolding rows by blast
qed

lemma format_2f_zero: "format_2f 0 = ''0.00''"
  by code_simp

lemma acm_table_cell:
  assumes "keys_are_integers results" and "usernames_present results"
    and "i < length results" and "j < length (sorted_list_of_set (key_ids results))"
  shows "fst (results_to_csv_acm results) ! Suc i ! Suc j
           = format_2f (acm_score (float_div 100 (of_nat (card (key_ids results))))
               (py_get (get_submission_info (results ! i))
                  (str_int (sorted_list_of_set (key_ids results) ! j)) empty_info))"
proof -
  let ?qids = "sorted_list_of_set (key_ids results)"
  have fin: "finite (key_ids results)"
    using question_ids_eq(2) [OF assms(1)] .
  have len: "length ?qids = card (key_ids results)"
    using fin by simp
  have ne: "?qids \<noteq> []"
  proof
    assume "?qids = []"
    then have "length ?qids = 0" by (simp only: list.size)
    with assms(4) show False by linarith
  qed
  have "fst (results_to_csv_acm results) ! Suc i
          = acm_row (float_div 100 (of_nat (card (key_ids results)))) ?qids (results ! i)"
    using results_to_csv_acm_table [OF assms(1,2)] assms(3) ne len by (simp add: Let_def)
  then show ?thesis
    using assms(4) by (simp add: acm_row_def nth_append)
qed

text \<open>
  C10. A record with \<open>is_ac\<close> true and no \<open>error_number\<close> scores as the same record
  with \<open>error_number\<close> 0 does, which is the full score; the cell that the ACM scorer
  writes for that entry and question is the formatted quotient of 100 by the number of
  distinct questions.
\<close>

theorem acm_missing_error_number:
  assumes "keys_are_integers results" and "usernames_present results"
    and "i < length results" and "j < length (sorted_list_of_set (key_ids results))"
    and "map_of (get_submission_info (results ! i))
           (str_int (sorted_list_of_set (key_ids results) ! j)) = Some qi"
    and "is_ac qi = Some True" and "error_number qi = None"
  shows "(\<forall>full. acm_score full qi = acm_score full (qi\<lparr>error_number := Some 0\<rparr>)
                 \<and> acm_score full qi = full)
       \<and> fst (results_to_csv_acm results) ! Suc i ! Suc j
           = format_2f (float_div 100 (of_nat (card (key_ids results))))"
proof -
  have sc: "acm_score full qi = full" "acm_score full (qi\<lparr>error_number := Some 0\<rparr>) = full"
    for full
    using assms(6,7) by (simp_all add: acm_score_def)
  have "py_get (get_submission_info (results ! i))
          (str_int (sorted_list_of_set (key_ids results) ! j)) empty_info = qi"
    using assms(5) by (simp add: py_get_def)
  then have "fst (results_to_csv_acm results) ! Suc i ! Suc j
               = format_2f (float_div 100 (of_nat (card (key_ids results))))"
    using acm_table_cell [OF assms(1-4)] sc(1) by simp
  then show ?thesis
    using sc by simp
qed

text \<open>
  C5, as amended. The columns of the ACM table are the questions that occur as a key of
  some entry's \<open>submission_info\<close>: a question that occurs in none has no column. In the
  column of a question, every entry that has no record for it has the cell \<open>0.00\<close>.
\<close>

theorem acm_columns_and_zero_cells:
  assumes "keys_are_integers results" and "usernames_present results"
  defines "qids \<equiv> sorted_list_of_set (key_ids results)"
  shows "hd (fst (results_to_csv_acm results)) = [''username''] @ question_headers qids @ [''total'']
       \<and> (\<forall>q. q \<notin> key_ids results \<longrightarrow> q \<notin> set qids)
       \<and> (\<forall>i j. i < length results \<and> j < length qids
                  \<and> map_of (get_submission_info (results ! i)) (str_int (qids ! j)) = None
               \<longrightarrow> fst (results_to_csv_acm results) ! Suc i ! Suc j = ''0.00'')"
proof -
  have fin: "finite (key_ids results)"
    using question_ids_eq(2) [OF assms(1)] .
  have header: "hd (fst (results_to_csv_acm results))
                  = [''username''] @ question_headers qids @ [''total'']"
    using results_to_csv_acm_table [OF assms(1,2)] unfolding qids_def by (simp add: Let_def)
  have cols: "\<forall>q. q \<notin> key_ids results \<longrightarrow> q \<notin> set qids"
    unfolding qids_def using fin by simp
  have zero: "fst (results_to_csv_acm results) ! Suc i ! Suc j = ''0.00''"
    if "i < length results" "j < length qids"
       "map_of (get_submission_info (results ! i)) (str_int (qids ! j)) = None" for i j
  proof -
    have "py_get (get_submission_info (results ! i)) (str_int (qids ! j)) empty_info = empty_info"
      using that(3) by (simp add: py_get_def)
    moreover have "acm_score full empty_info = 0" for full
      by (simp add: acm_score_def empty_info_def)
    ultimately show ?thesis
      using acm_table_cell [OF assms(1,2) that(1)] that(2)
      unfolding qids_def by (simp add: format_2f_zero)
  qed
  show ?thesis
    using header cols zero by blast
qed

section \<open>The ACM scorer on the examples\<close>

lemma key_ids_eq_set:
  assumes "keys_are_integers results" and "question_ids results = Inr qs"
  shows "key_ids results = set qs" and "sorted_list_of_set (key_ids results) = qs"
proof -
  from question_ids_eq(1) [OF assms(1)] assms(2)
  show q: "sorted_list_of_set (key_ids results) = qs" by simp
  have "set (sorted_list_of_set (key_ids results)) = key_ids results"
    using question_ids_eq(2) [OF assms(1)] by simp
  with q show "key_ids results = set qs" by simp
qed

lemma example_acm_keys: "keys_are_integers example_acm"
  by code_simp

lemma example_acm_users: "usernames_present example_acm"
  by code_simp

lemma example_acm_question_ids: "question_ids example_acm = Inr [1, 2, 10]"
  by code_simp

lemma example_acm_qids: "sorted_list_of_set (key_ids example_acm) = [1, 2, 10]"
  using key_ids_eq_set(2) [OF example_acm_keys example_acm_question_ids] .

lemma example_acm_card: "card (key_ids example_acm) = 3"
  using key_ids_eq_set(1) [OF example_acm_keys example_acm_question_ids] by simp

lemma example_acm_table:
  "results_to_csv_acm example_acm
     = ([[''username'', ''Q1(1)'', ''Q2(2)'', ''Q3(10)'', ''total''],
         [''alice'', ''0.00'', ''33.33'', ''16.67'', ''50.00''],
         [''bob'', ''0.00'', ''0.00'', ''33.33'', ''33.33''],
         [''carol'', ''0.00'', ''0.00'', ''0.00'', ''0.00'']], None)"
  by code_simp

theorem results_to_csv_acm_scores_witness:
  "keys_are_integers example_acm \<and> usernames_present example_acm
   \<and> results_to_csv_acm example_acm
       = ([[''username'', ''Q1(1)'', ''Q2(2)'', ''Q3(10)'', ''total''],
           [''alice'', ''0.00'', ''33.33'', ''16.67'', ''50.00''],
           [''bob'', ''0.00'', ''0.00'', ''33.33'', ''33.33''],
           [''carol'', ''0.00'', ''0.00'', ''0.00'', ''0.00'']], None)
   \<and> list_all (\<lambda>row. list_all two_decimals (tl row))
         (tl (fst (results_to_csv_acm example_acm)))"
proof -
  note scores = results_to_csv_acm_scores [OF example_acm_keys example_acm_users]
  from scores have "\<forall>row \<in> set (tl (fst (results_to_csv_acm example_acm))).
         \<forall>cell \<in> set (tl row). two_decimals cell"
    by (rule conjunct2)
  then have "list_all (\<lambda>row. list_all two_decimals (tl row))
               (tl (fst (results_to_csv_acm example_acm)))"
    by (simp only: list_all_iff)
  then show ?thesis
    using example_acm_keys example_acm_users example_acm_table by blast
qed

theorem acm_missing_error_number_witness:
  "keys_are_integers example_acm \<and> usernames_present example_acm
   \<and> map_of (get_submission_info (example_acm ! 1)) (str_int ([1, 2, 10] ! 2))
       = Some \<lparr>is_ac = Some True, error_number = None\<rparr>
   \<and> fst (results_to_csv_acm example_acm) ! 2 ! 3 = ''33.33''"
proof -
  let ?qi = "\<lparr>is_ac = Some True, error_number = None\<rparr>"
  have i: "1 < length example_acm"
    by (simp add: example_acm_def)
  have j: "2 < length (sorted_list_of_set (key_ids example_acm))"
    by (simp add: example_acm_qids)
  have rec: "map_of (get_submission_info (example_acm ! 1))
               (str_int (sorted_list_of_set (key_ids example_acm) ! 2)) = Some ?qi"
    unfolding example_acm_qids by code_simp
  have "fst (results_to_csv_acm example_acm) ! Suc 1 ! Suc 2
          = format_2f (float_div 100 (of_nat (card (key_ids example_acm))))"
    by (rule acm_missing_error_number
               [OF example_acm_keys example_acm_users i j rec, THEN conjunct2]) simp_all
  moreover have "format_2f (float_div 100 (of_nat 3)) = ''33.33''"
    by code_simp
  moreover have "Suc 1 = 2" "Suc 2 = 3" by simp_all
  ultimately have "fst (results_to_csv_acm example_acm) ! 2 ! 3 = ''33.33''"
    by (simp only: example_acm_card)
  then show ?thesis
    using example_acm_keys example_acm_users rec by (simp add: example_acm_qids)
qed

theorem acm_columns_and_zero_cells_witness:
  "keys_are_integers example_acm \<and> usernames_present example_acm
   \<and> 3 \<notin> key_ids example_acm \<and> 3 \<notin> set (sorted_list_of_set (key_ids example_acm))
   \<and> map_of (get_submission_info (example_acm ! 2)) (str_int ([1, 2, 10] ! 1)) = None
   \<and> fst (results_to_csv_acm example_acm) ! 3 ! 2 = ''0.00''"
proof -
  note cols = acm_columns_and_zero_cells [OF example_acm_keys example_acm_users]
  have notin: "3 \<notin> key_ids example_acm"
    using key_ids_eq_set(1) [OF example_acm_keys example_acm_question_ids] by simp
  with cols have nocol: "3 \<notin> set (sorted_list_of_set (key_ids example_acm))"
    by blast
  have i: "2 < length example_acm"
    by (simp add: example_acm_def)
  have j: "1 < length (sorted_list_of_set (key_ids example_acm))"
    by (simp add: example_acm_qids)
  have rec: "map_of (get_submission_info (example_acm ! 2))
               (str_int (sorted_list_of_set (key_ids example_acm) ! 1)) = None"
    unfolding example_acm_qids by code_simp
  from cols i j rec have "fst (results_to_csv_acm example_acm) ! Suc 2 ! Suc 1 = ''0.00''"
    by blast
  then have "fst (results_to_csv_acm example_acm) ! 3 ! 2 = ''0.00''"
    by (simp add: numeral_2_eq_2 numeral_3_eq_3)
  then show ?thesis
    using example_acm_keys example_acm_users notin nocol rec by (simp add: example_acm_qids)
qed

lemma example_one_attempt_keys: "keys_are_integers example_one_attempt"
  by code_simp

lemma example_one_attempt_question_ids: "question_ids example_one_attempt = Inr [1]"
  by code_simp

text \<open>
  C5 as stated fails: question 2 occurs in no \<open>submission_info\<close>, and the table has the
  column of question 1 only, with no cell \<open>0.00\<close> anywhere.
\<close>

theorem acm_unattempted_question_counterexample:
  "2 \<notin> key_ids example_one_attempt
   \<and> results_to_csv_acm example_one_attempt
       = ([[''username'', ''Q1(1)'', ''total''], [''alice'', ''100.00'', ''100.00'']], None)"
proof -
  have "2 \<notin> key_ids example_one_attempt"
    using key_ids_eq_set(1) [OF example_one_attempt_keys example_one_attempt_question_ids]
    by simp
  moreover have "results_to_csv_acm example_one_attempt
       = ([[''username'', ''Q1(1)'', ''total''], [''alice'', ''100.00'', ''100.00'']], None)"
    by code_simp
  ultimately show ?thesis by simp
qed

section \<open>The OI scorer\<close>

lemma oi_cells_eq:
  "oi_cells info qids row = row @ map (\<lambda>q. str_int (py_get info (str_int q) 0)) qids"
  by (induction qids arbitrary: row) (simp_all add: Let_def)

lemma oi_rows_eq:
  "\<forall>e \<in> set es. entry_username e \<noteq> None
     \<Longrightarrow> oi_rows qids es out = (out @ map (oi_row qids) es, None)"
proof (induction es arbitrary: out)
  case Nil
  then show ?case by simp
next
  case (Cons e es)
  from Cons.prems obtain u uname where u: "user e = Some u" "username u = Some uname"
    by (auto simp: entry_username_def split: option.splits)
  have rest: "\<forall>e \<in> set es. entry_username e \<noteq> None"
    using Cons.prems by simp
  show ?case
    using u by (simp add: Let_def oi_cells_eq Cons.IH [OF rest] oi_row_def entry_username_def)
qed

lemma results_to_csv_oi_table:
  assumes "keys_are_integers results" and "usernames_present results"
  shows "results_to_csv_oi results
           = (([''username''] @ question_headers (sorted_list_of_set (key_ids results))
                 @ [''total_score''])
                # map (oi_row (sorted_list_of_set (key_ids results))) results, None)"
  unfolding results_to_csv_oi_def
  by (simp add: question_ids_eq(1) [OF assms(1)]
        oi_rows_eq [OF assms(2) [unfolded usernames_present_def]] Let_def)

subsection \<open>Writing and reading back an integer\<close>

lemma digit_char_cases:
  "digit_char n \<noteq> CHR ''_'' \<and> digit_char n \<noteq> CHR ''-'' \<and> digit_char n \<noteq> CHR ''+''
     \<and> \<not> is_space (digit_char n) \<and> digit_val (digit_char n) = Some (n mod 10)"
proof -
  have "n mod 10 = 0 \<or> n mod 10 = 1 \<or> n mod 10 = 2 \<or> n mod 10 = 3 \<or> n mod 10 = 4
          \<or> n mod 10 = 5 \<or> n mod 10 = 6 \<or> n mod 10 = 7 \<or> n mod 10 = 8 \<or> n mod 10 = 9"
    by presburger
  then show ?thesis
    unfolding digit_char_def digit_val_def digit_chars_def is_space_def
    by (elim disjE) simp_all
qed

lemma digit_chars_not_special:
  "c \<in> set digit_chars
     \<Longrightarrow> c \<noteq> CHR ''_'' \<and> c \<noteq> CHR ''-'' \<and> c \<noteq> CHR ''+'' \<and> \<not> is_space c"
  unfolding digit_chars_def is_space_def by auto

lemma parse_digits_str_digits:
  "0 \<le> n \<Longrightarrow> parse_digits (str_digits n @ ys) False 0 = parse_digits ys False n"
proof (induction n arbitrary: ys rule: str_digits.induct)
  case (1 n)
  show ?case
  proof (cases "n < 10")
    case True
    with "1.prems" have "n mod 10 = n" by simp
    with True show ?thesis
      by (subst str_digits.simps) (simp add: digit_char_cases)
  next
    case False
    have "parse_digits (str_digits n @ ys) False 0
            = parse_digits (str_digits (n div 10) @ (digit_char n # ys)) False 0"
      using False by (subst str_digits.simps) simp
    also have "\<dots> = parse_digits (digit_char n # ys) False (n div 10)"
      using False "1.prems" by (intro "1.IH") simp_all
    also have "\<dots> = parse_digits ys False (10 * (n div 10) + n mod 10)"
      by (simp add: digit_char_cases)
    finally show ?thesis by simp
  qed
qed

lemma parse_unsigned_str_digits: "0 \<le> n \<Longrightarrow> parse_unsigned (str_digits n) = Some n"
proof -
  assume n: "0 \<le> n"
  obtain c cs where s: "str_digits n = c # cs"
    using str_digits_nonempty [of n] by (cases "str_digits n") auto
  then have "c \<in> set digit_chars"
    using str_digits_in [of n] by auto
  then have "c \<noteq> CHR ''_''"
    using digit_chars_not_special by blast
  moreover have "parse_digits (str_digits n) False 0 = Some n"
    using parse_digits_str_digits [OF n, of "[]"] by simp
  ultimately show ?thesis
    using s by (simp add: parse_unsigned_def)
qed

lemma strip_no_space:
  assumes "s \<noteq> []" and "\<not> is_space (hd s)" and "\<not> is_space (last s)"
  shows "strip s = s"
proof -
  have "dropWhile is_space s = s"
    using assms(1,2) by (cases s) simp_all
  moreover have "dropWhile is_space (rev s) = rev s"
    using assms(1,3) by (cases "rev s") (simp_all add: last_rev [symmetric] hd_rev)
  ultimately show ?thesis
    by (simp add: strip_def)
qed

lemma strip_str_int: "strip (str_int i) = str_int i"
proof (rule strip_no_space)
  show "str_int i \<noteq> []"
    by (simp add: str_int_def str_digits_nonempty)
  have digits: "\<forall>c \<in> set (str_digits n). \<not> is_space c" for n
    using str_digits_in [of n] digit_chars_not_special by blast
  have "\<forall>c \<in> set (str_int i). \<not> is_space c"
    using digits by (auto simp: str_int_def is_space_def)
  moreover have "hd (str_int i) \<in> set (str_int i)" "last (str_int i) \<in> set (str_int i)"
    using \<open>str_int i \<noteq> []\<close> by simp_all
  ultimately show "\<not> is_space (hd (str_int i))" "\<not> is_space (last (str_int i))"
    by blast+
qed

lemma py_int_str_int: "py_int (str_int i) = Some i"
proof (cases "i < 0")
  case True
  then have "parse_unsigned (str_digits (- i)) = Some (- i)"
    by (intro parse_unsigned_str_digits) simp
  with True show ?thesis
    by (simp add: py_int_def strip_str_int) (simp add: str_int_def)
next
  case False
  then have p: "parse_unsigned (str_digits i) = Some i"
    by (intro parse_unsigned_str_digits) simp
  obtain c cs where s: "str_digits i = c # cs"
    using str_digits_nonempty [of i] by (cases "str_digits i") auto
  then have "c \<in> set digit_chars"
    using str_digits_in [of i] by auto
  then have "c \<noteq> CHR ''-''" "c \<noteq> CHR ''+''"
    using digit_chars_not_special by blast+
  with False p s show ?thesis
    by (simp add: py_int_def strip_str_int) (simp add: str_int_def)
qed

lemma str_int_inj: "str_int i = str_int j \<Longrightarrow> i = j"
  by (metis py_int_str_int option.inject)

subsection \<open>The scores of a row and their sum\<close>

lemma sum_list_absent:
  "k0 \<notin> set ks \<Longrightarrow> sum_list (map (\<lambda>k. if k = k0 then (v :: int) else 0) ks) = 0"
  by (induction ks) auto

lemma sum_list_single:
  "distinct ks \<Longrightarrow> k0 \<in> set ks
     \<Longrightarrow> sum_list (map (\<lambda>k. if k = k0 then (v :: int) else 0) ks) = v"
  by (induction ks) (auto simp: sum_list_absent)

lemma sum_list_py_get:
  fixes info :: "('k \<times> int) list"
  assumes "distinct ks"
  shows "distinct (map fst info) \<Longrightarrow> set (map fst info) \<subseteq> set ks
           \<Longrightarrow> sum_list (map (\<lambda>k. py_get info k 0) ks) = sum_list (map snd info)"
proof (induction info)
  case Nil
  then show ?case by (simp add: py_get_def)
next
  case (Cons kv rest)
  obtain k0 v0 where kv: "kv = (k0, v0)" by (cases kv)
  from Cons.prems kv have k0: "k0 \<notin> set (map fst rest)" "k0 \<in> set ks"
    and rest: "distinct (map fst rest)" "set (map fst rest) \<subseteq> set ks"
    by auto
  have none: "map_of rest k0 = None"
    using k0(1) by (simp add: map_of_eq_None_iff)
  have "py_get (kv # rest) k 0 = (if k = k0 then v0 else 0) + py_get rest k 0" for k
    using none by (simp add: py_get_def kv)
  then have "sum_list (map (\<lambda>k. py_get (kv # rest) k 0) ks)
               = sum_list (map (\<lambda>k. if k = k0 then v0 else 0) ks)
                   + sum_list (map (\<lambda>k. py_get rest k 0) ks)"
    by (simp add: sum_list_addf)
  also have "\<dots> = v0 + sum_list (map snd rest)"
    using sum_list_single [OF assms k0(2)] Cons.IH [OF rest] by simp
  finally show ?case
    by (simp add: kv)
qed

lemma sum_of_scores_canonical:
  fixes results :: "int rank_entry list"
  assumes "keys_are_integers results" and "e \<in> set results"
    and "canonical_keys (get_submission_info e)"
  shows "sum_list (map (\<lambda>q. py_get (get_submission_info e) (str_int q) 0)
                     (sorted_list_of_set (key_ids results)))
           = sum_list (map snd (get_submission_info e))"
proof -
  let ?info = "get_submission_info e"
  let ?qids = "sorted_list_of_set (key_ids results)"
  have fin: "finite (key_ids results)"
    using question_ids_eq(2) [OF assms(1)] .
  have "inj_on str_int (set ?qids)"
    by (rule inj_onI) (rule str_int_inj)
  then have dist: "distinct (map str_int ?qids)"
    using fin by (simp add: distinct_map)
  have sub: "set (map fst ?info) \<subseteq> set (map str_int ?qids)"
  proof
    fix k assume k: "k \<in> set (map fst ?info)"
    with assms(3) obtain i where i: "py_int k = Some i" "str_int i = k"
      unfolding canonical_keys_def by blast
    from k i(1) assms(2) have "i \<in> key_ids results"
      unfolding key_ids_def by blast
    with fin i(2) show "k \<in> set (map str_int ?qids)"
      by auto
  qed
  have "sum_list (map (\<lambda>k. py_get ?info k 0) (map str_int ?qids)) = sum_list (map snd ?info)"
    using dist _ sub by (rule sum_list_py_get) (use assms(3) in \<open>simp add: canonical_keys_def\<close>)
  then show ?thesis
    by (simp add: o_def)
qed

text \<open>
  C3. Let every key be an integer literal and every entry have a user name, so that the
  OI scorer runs to its end. The last cell of an entry's row is the entry's
  \<open>total_score\<close> as the server reports it when the field is present, whatever the
  scores of the entry add up to, and the sum of the scores in the entry's
  \<open>submission_info\<close> when the field is absent. The cells between the name and the total
  are the scores stored under the question ids, 0 where there is none; when the keys of
  the entry are pairwise different decimal strings as \<^verbatim>\<open>str\<close> writes them, the sum of
  the scores in \<open>submission_info\<close> is the sum of the scores of these cells.
\<close>

theorem results_to_csv_oi_total:
  assumes "keys_are_integers results" and "usernames_present results"
    and "i < length results"
  shows "(\<forall>t. total_score (results ! i) = Some t
              \<longrightarrow> last (fst (results_to_csv_oi results) ! Suc i) = str_int t)
       \<and> (total_score (results ! i) = None
              \<longrightarrow> last (fst (results_to_csv_oi results) ! Suc i)
                    = str_int (sum_list (map snd (get_submission_info (results ! i)))))
       \<and> butlast (tl (fst (results_to_csv_oi results) ! Suc i))
           = map (\<lambda>q. str_int (py_get (get_submission_info (results ! i)) (str_int q) 0))
               (sorted_list_of_set (key_ids results))
       \<and> (canonical_keys (get_submission_info (results ! i))
              \<longrightarrow> sum_list (map snd (get_submission_info (results ! i)))
                    = sum_list (map (\<lambda>q. py_get (get_submission_info (results ! i)) (str_int q) 0)
                                  (sorted_list_of_set (key_ids results))))
       \<and> snd (results_to_csv_oi results) = None"
proof -
  have row: "fst (results_to_csv_oi results) ! Suc i
               = oi_row (sorted_list_of_set (key_ids results)) (results ! i)"
    using results_to_csv_oi_table [OF assms(1,2)] assms(3) by simp
  have tot: "last (oi_row qids e)
          = str_int (case total_score e of
                       None \<Rightarrow> sum_list (map snd (get_submission_info e))
                     | Some t \<Rightarrow> t)" for qids e
    by (simp add: oi_row_def)
  have cells: "butlast (tl (oi_row qids e))
          = map (\<lambda>q. str_int (py_get (get_submission_info e) (str_int q) 0)) qids" for qids e
    by (simp add: oi_row_def butlast_append)
  have sums: "sum_list (map snd (get_submission_info (results ! i)))
                = sum_list (map (\<lambda>q. py_get (get_submission_info (results ! i)) (str_int q) 0)
                              (sorted_list_of_set (key_ids results)))"
    if "canonical_keys (get_submission_info (results ! i))"
    using sum_of_scores_canonical [OF assms(1) nth_mem [OF assms(3)] that] by simp
  have ended: "snd (results_to_csv_oi results) = None"
    using results_to_csv_oi_table [OF assms(1,2)] by simp
  show ?thesis
    unfolding row using tot cells sums ended by simp
qed

lemma example_oi_keys: "keys_are_integers example_oi"
  by code_simp

lemma example_oi_users: "usernames_present example_oi"
  by code_simp

theorem results_to_csv_oi_total_witness:
  "keys_are_integers example_oi \<and> usernames_present example_oi
   \<and> total_score (example_oi ! 0) = Some 150
   \<and> sum_list (map snd (get_submission_info (example_oi ! 0))) = 140
   \<and> last (fst (results_to_csv_oi example_oi) ! Suc 0) = ''150''
   \<and> total_score (example_oi ! 1) = None
   \<and> last (fst (results_to_csv_oi example_oi) ! Suc 1) = ''55''"
proof -
  have i0: "0 < length example_oi" and i1: "1 < length example_oi"
    by (simp_all add: example_oi_def)
  have t0: "total_score (example_oi ! 0) = Some 150"
    and t1: "total_score (example_oi ! 1) = None"
    and s0: "sum_list (map snd (get_submission_info (example_oi ! 0))) = 140"
    and s1: "sum_list (map snd (get_submission_info (example_oi ! 1))) = 55"
    by (simp_all add: example_oi_def get_submission_info_def)
  have str: "str_int 150 = ''150''" "str_int 55 = ''55''"
    by code_simp+
  from results_to_csv_oi_total [OF example_oi_keys example_oi_users i0] t0
  have r0: "last (fst (results_to_csv_oi example_oi) ! Suc 0) = str_int 150"
    by blast
  from results_to_csv_oi_total [OF example_oi_keys example_oi_users i1] t1
  have r1: "last (fst (results_to_csv_oi example_oi) ! Suc 1) = str_int 55"
    unfolding s1 [symmetric] by blast
  show ?thesis
    using example_oi_keys example_oi_users t0 t1 s0 r0 r1 str by simp
qed

section \<open>The pages of a fetch\<close>

lemma py_range_empty: "stop \<le> start \<Longrightarrow> py_range start stop step = []"
  by (subst py_range.simps) simp

lemma py_range_step:
  "0 < step \<Longrightarrow> start < stop
     \<Longrightarrow> py_range start stop step = start # py_range (start + step) stop step"
  by (subst py_range.simps) simp

lemma py_range_eq:
  assumes "0 < step"
    and "if n = 0 then stop \<le> start
         else start + step * (int n - 1) < stop \<and> stop \<le> start + step * int n"
  shows "py_range start stop step = map (\<lambda>k. start + step * int k) [0..<n]"
  using assms(2)
proof (induction n arbitrary: start)
  case 0
  then show ?case by (simp add: py_range_empty)
next
  case (Suc n)
  from Suc.prems have lt: "start < stop"
  proof -
    have "0 \<le> step * int n" using assms(1) by simp
    with Suc.prems show ?thesis by simp
  qed
  have nxt: "if n = 0 then stop \<le> start + step
             else (start + step) + step * (int n - 1) < stop
                    \<and> stop \<le> (start + step) + step * int n"
    using Suc.prems by (auto simp: algebra_simps)
  have "py_range start stop step = start # py_range (start + step) stop step"
    using assms(1) lt by (rule py_range_step)
  also have "py_range (start + step) stop step
               = map (\<lambda>k. (start + step) + step * int k) [0..<n]"
    using nxt by (rule Suc.IH)
  also have "start # map (\<lambda>k. (start + step) + step * int k) [0..<n]
               = map (\<lambda>k. start + step * int k) [0..<Suc n]"
    by (simp add: upt_conv_Cons map_Suc_upt [symmetric] algebra_simps del: upt_Suc)
  finally show ?case .
qed

lemma py_range_pages:
  "py_range PAGE_LIMIT t PAGE_LIMIT
     = map (\<lambda>k. PAGE_LIMIT * int k) [1..<nat ((t + 249) div 250)]"
proof -
  define n where "n = nat ((t - 1) div 250)"
  have cond: "if n = 0 then t \<le> 250
              else 250 + 250 * (int n - 1) < t \<and> t \<le> 250 + 250 * int n"
    unfolding n_def by auto
  have "py_range 250 t 250 = map (\<lambda>k. 250 + 250 * int k) [0..<n]"
    using cond by (intro py_range_eq) simp_all
  also have "\<dots> = map (\<lambda>k. 250 * int k) (map Suc [0..<n])"
    by (simp add: algebra_simps)
  also have "map Suc [0..<n] = [1..<Suc n]"
    by (simp add: map_Suc_upt del: upt_Suc)
  also have "[1..<Suc n] = [1..<nat ((t + 249) div 250)]"
  proof (cases "t \<le> 0")
    case True
    then have "(t + 249) div 250 \<le> 0" "(t - 1) div 250 < 0" by auto
    then show ?thesis unfolding n_def by simp
  next
    case False
    then have "Suc n = nat ((t + 249) div 250)" unfolding n_def by simp
    then show ?thesis by (simp only:)
  qed
  finally show ?thesis
    by (simp add: PAGE_LIMIT_def)
qed

lemma fetch_pages_ok:
  "\<forall>off \<in> set offs. page_ok server contest_id off
     \<Longrightarrow> fetch_pages server contest_id offs (sent, results)
           = (sent @ map (\<lambda>off. rank_url off contest_id) offs,
              Inr (results @ concat (map (page_of server contest_id) offs)))"
proof (induction offs arbitrary: sent results)
  case Nil
  then show ?case by simp
next
  case (Cons off offs)
  from Cons.prems obtain d where d: "server (rank_url off contest_id) = Ok d"
    by (auto simp: page_ok_def split: response.splits)
  have rest: "\<forall>off \<in> set offs. page_ok server contest_id off"
    using Cons.prems by simp
  show ?case
    using d by (simp add: Let_def Cons.IH [OF rest] page_of_def)
qed

lemma fetch_all_ranks_ok:
  assumes "server (rank_url 0 contest_id) = Ok d"
    and "\<forall>off \<in> set (py_range PAGE_LIMIT (get_total d) PAGE_LIMIT). page_ok server contest_id off"
  shows "fetch_all_ranks server contest_id
           = (map (\<lambda>off. rank_url off contest_id) (0 # py_range PAGE_LIMIT (get_total d) PAGE_LIMIT),
              Inr (concat (map (page_of server contest_id)
                                (0 # py_range PAGE_LIMIT (get_total d) PAGE_LIMIT))))"
  unfolding fetch_all_ranks_def
  using assms(1) by (simp add: Let_def fetch_pages_ok [OF assms(2)] page_of_def)

lemma pages_below_total:
  "1 \<le> k \<Longrightarrow> (PAGE_LIMIT * int k < t) = (k < nat ((t + 249) div 250))"
  unfolding PAGE_LIMIT_def by (cases "t \<le> 0") auto

text \<open>
  C4. Let the first reply be a success whose data holds the total \<open>t\<close>, and let the
  server answer the later requests with a success status. Then the requests that
  \<open>fetch_all_ranks\<close> sends are, in this order, the one at offset 0 and those at the
  offsets 250, 500, ..., each with limit 250, and the result is the concatenation of
  the pages in the same order. A positive multiple of the page size is requested exactly
  when it is strictly less than \<open>t\<close>. For \<open>t = 600\<close> the requests are the three at
  the offsets 0, 250 and 500, and the result is the three pages in that order.
\<close>

theorem fetch_all_ranks_pages:
  fixes server :: "'e rank_server"
  assumes "server (rank_url 0 contest_id) = Ok (Some d)" and "data_total d = Some t"
    and "pages_ok server contest_id (map (\<lambda>k. PAGE_LIMIT * int k) [1..<nat ((t + 249) div 250)])"
  defines "offs \<equiv> 0 # map (\<lambda>k. PAGE_LIMIT * int k) [1..<nat ((t + 249) div 250)]"
  shows "fetch_all_ranks server contest_id
           = (map (\<lambda>off. \<lparr>req_offset = off, req_limit = 250, req_contest_id = contest_id\<rparr>) offs,
              Inr (concat (map (page_of server contest_id) offs)))
       \<and> (\<forall>k. 1 \<le> k \<longrightarrow> (PAGE_LIMIT * int k \<in> set offs) = (PAGE_LIMIT * int k < t))
       \<and> PAGE_LIMIT = 250
       \<and> (t = 600 \<longrightarrow>
            fetch_all_ranks server contest_id
              = ([\<lparr>req_offset = 0, req_limit = 250, req_contest_id = contest_id\<rparr>,
                  \<lparr>req_offset = 250, req_limit = 250, req_contest_id = contest_id\<rparr>,
                  \<lparr>req_offset = 500, req_limit = 250, req_contest_id = contest_id\<rparr>],
                 Inr (page_of server contest_id 0 @ page_of server contest_id 250
                        @ page_of server contest_id 500)))"
proof -
  have tot: "get_total (Some d) = t"
    using assms(2) by (simp add: get_total_def)
  have rng: "py_range PAGE_LIMIT (get_total (Some d)) PAGE_LIMIT
               = map (\<lambda>k. PAGE_LIMIT * int k) [1..<nat ((t + 249) div 250)]"
    unfolding tot by (rule py_range_pages)
  have ok: "\<forall>off \<in> set (py_range PAGE_LIMIT (get_total (Some d)) PAGE_LIMIT).
              page_ok server contest_id off"
    using assms(3) unfolding rng pages_ok_def .
  have url: "rank_url = (\<lambda>off cid. \<lparr>req_offset = off, req_limit = 250, req_contest_id = cid\<rparr>)"
    by (intro ext) (simp add: rank_url_def PAGE_LIMIT_def)
  have run: "fetch_all_ranks server contest_id
               = (map (\<lambda>off. \<lparr>req_offset = off, req_limit = 250, req_contest_id = contest_id\<rparr>) offs,
                  Inr (concat (map (page_of server contest_id) offs)))"
    using fetch_all_ranks_ok [OF assms(1) ok] unfolding rng offs_def url by simp
  have mem: "(PAGE_LIMIT * int k \<in> set offs) = (PAGE_LIMIT * int k < t)" if "1 \<le> k" for k
  proof -
    have "(PAGE_LIMIT * int k \<in> set offs) = (k < nat ((t + 249) div 250))"
      using that unfolding offs_def by (auto simp: PAGE_LIMIT_def)
    then show ?thesis
      using pages_below_total [OF that, of t] by simp
  qed
  have six: "offs = [0, 250, 500]" if "t = 600"
  proof -
    have "nat ((t + 249) div 250) = 3" using that by simp
    then have "[1..<nat ((t + 249) div 250)] = [1, 2]"
      by (simp add: upt_conv_Cons)
    then show ?thesis
      unfolding offs_def by (simp add: PAGE_LIMIT_def)
  qed
  show ?thesis
    using run mem six by (auto simp: PAGE_LIMIT_def)
qed

theorem fetch_all_ranks_pages_witness:
  "example_server (rank_url 0 7)
     = Ok (Some \<lparr>data_total = Some 600, data_results = Some [0, 125]\<rparr>)
   \<and> pages_ok example_server 7 [250, 500]
   \<and> fetch_all_ranks example_server 7
       = ([\<lparr>req_offset = 0, req_limit = 250, req_contest_id = 7\<rparr>,
           \<lparr>req_offset = 250, req_limit = 250, req_contest_id = 7\<rparr>,
           \<lparr>req_offset = 500, req_limit = 250, req_contest_id = 7\<rparr>],
          Inr [0, 125, 250, 375, 500])"
proof -
  let ?d = "\<lparr>data_total = Some 600, data_results = Some [0, 125 :: int]\<rparr>"
  have first: "example_server (rank_url 0 7) = Ok (Some ?d)"
    by (simp add: example_server_def rank_url_def)
  have tot: "data_total ?d = Some 600"
    by simp
  have offs: "map (\<lambda>k. PAGE_LIMIT * int k) [1..<nat ((600 + 249) div 250)] = [250, 500]"
    by (simp add: PAGE_LIMIT_def upt_conv_Cons)
  have ok: "pages_ok example_server 7 [250, 500]"
    by (simp add: pages_ok_def page_ok_def example_server_def rank_url_def)
  have pages: "page_of example_server 7 0 @ page_of example_server 7 250
                 @ page_of example_server 7 500 = [0, 125, 250, 375, 500]"
    by (simp add: page_of_def example_server_def get_results_def rank_url_def)
  have "fetch_all_ranks example_server 7
       = ([\<lparr>req_offset = 0, req_limit = 250, req_contest_id = 7\<rparr>,
           \<lparr>req_offset = 250, req_limit = 250, req_contest_id = 7\<rparr>,
           \<lparr>req_offset = 500, req_limit = 250, req_contest_id = 7\<rparr>],
          Inr (page_of example_server 7 0 @ page_of example_server 7 250
                 @ page_of example_server 7 500))"
    using fetch_all_ranks_pages [of example_server 7 ?d 600, OF first tot ok [folded offs]] by blast
  then show ?thesis
    using first ok unfolding pages by simp
qed

lemma get_total_fallback: "lacks_total d \<Longrightarrow> get_total d = int (length (get_results d))"
  by (auto simp: lacks_total_def get_total_def Let_def split: option.splits)

text \<open>
  C7. When the data of the first reply has no \<open>total\<close>, the total is the number of
  results of the first page. The first reply answers a request for at most 250 entries;
  when it holds no more than the requested limit, the first request is the only one
  sent and its results are the result of the fetch, whatever the server would answer to
  any other request, that is, however many entries it holds.
\<close>

theorem fetch_all_ranks_without_total:
  fixes server :: "'e rank_server"
  assumes "server (rank_url 0 contest_id) = Ok d" and "lacks_total d"
  shows "get_total d = int (length (get_results d))
       \<and> req_limit (rank_url 0 contest_id) = 250
       \<and> (int (length (get_results d)) \<le> req_limit (rank_url 0 contest_id)
            \<longrightarrow> fetch_all_ranks server contest_id
                  = ([\<lparr>req_offset = 0, req_limit = 250, req_contest_id = contest_id\<rparr>],
                     Inr (get_results d)))"
proof -
  have tot: "get_total d = int (length (get_results d))"
    using assms(2) by (rule get_total_fallback)
  have lim: "req_limit (rank_url 0 contest_id) = 250"
    by (simp add: rank_url_def PAGE_LIMIT_def)
  have one: "fetch_all_ranks server contest_id
               = ([\<lparr>req_offset = 0, req_limit = 250, req_contest_id = contest_id\<rparr>],
                  Inr (get_results d))"
    if "int (length (get_results d)) \<le> req_limit (rank_url 0 contest_id)"
  proof -
    have "py_range PAGE_LIMIT (get_total d) PAGE_LIMIT = []"
      using that unfolding tot lim PAGE_LIMIT_def by (intro py_range_empty) simp
    then show ?thesis
      unfolding fetch_all_ranks_def using assms(1)
      by (simp add: Let_def rank_url_def PAGE_LIMIT_def)
  qed
  show ?thesis
    using tot lim one by blast
qed

theorem fetch_all_ranks_without_total_witness:
  "short_page_server (rank_url 0 7)
     = Ok (Some \<lparr>data_total = None, data_results = Some [0, 1]\<rparr>)
   \<and> short_page_server (rank_url 250 7)
     = Ok (Some \<lparr>data_total = None, data_results = Some [250, 251]\<rparr>)
   \<and> lacks_total (Some \<lparr>data_total = None, data_results = Some [0, 1 :: int]\<rparr>)
   \<and> int (length [0, 1 :: int]) \<le> req_limit (rank_url 0 7)
   \<and> fetch_all_ranks short_page_server 7
       = ([\<lparr>req_offset = 0, req_limit = 250, req_contest_id = 7\<rparr>], Inr [0, 1])"
proof -
  let ?d = "Some \<lparr>data_total = None, data_results = Some [0, 1 :: int]\<rparr>"
  have first: "short_page_server (rank_url 0 7) = Ok ?d"
    by (simp add: short_page_server_def rank_url_def)
  have more: "short_page_server (rank_url 250 7)
                = Ok (Some \<lparr>data_total = None, data_results = Some [250, 251]\<rparr>)"
    by (simp add: short_page_server_def rank_url_def)
  have lacks: "lacks_total ?d"
    by (simp add: lacks_total_def)
  have res: "get_results ?d = [0, 1]"
    by (simp add: get_results_def)
  have within: "int (length [0, 1 :: int]) \<le> req_limit (rank_url 0 7)"
    by (simp add: rank_url_def PAGE_LIMIT_def)
  from fetch_all_ranks_without_total [of short_page_server 7 ?d, OF first lacks] within
  have "fetch_all_ranks short_page_server 7
       = ([\<lparr>req_offset = 0, req_limit = 250, req_contest_id = 7\<rparr>], Inr [0, 1])"
    unfolding res by blast
  then show ?thesis
    using first more lacks within by simp
qed

section \<open>Loading cookies and logging in\<close>

text \<open>
  C8. \<open>load_cookies\<close> returns \<open>False\<close>, and leaves the session as it was, when the
  file is missing, when it cannot be opened, when \<open>json.load\<close> fails on its text and
  when the jar cannot be built from the parsed data, for every failure that is an
  \<open>Exception\<close>; in none of these cases does it raise. It returns \<open>True\<close>, with the
  loaded jar in the session, when all three steps succeed.
\<close>

theorem load_cookies_never_fatal:
  fixes json_load :: "string \<Rightarrow> exn + 'j" and cookiejar_from_dict :: "'j \<Rightarrow> exn + cookie list"
  defines "load \<equiv> load_cookies json_load cookiejar_from_dict"
  shows "(fs path = None \<longrightarrow> load fs s path = Inr (False, s))
       \<and> (\<forall>err. open_read fs path = Inl err \<longrightarrow> load fs s path = Inr (False, s))
       \<and> (\<forall>contents err.
             open_read fs path = Inr contents \<and> json_load contents = Inl err \<and> is_Exception err
             \<longrightarrow> load fs s path = Inr (False, s))
       \<and> (\<forall>contents data err.
             open_read fs path = Inr contents \<and> json_load contents = Inr data
               \<and> cookiejar_from_dict data = Inl err \<and> is_Exception err
             \<longrightarrow> load fs s path = Inr (False, s))
       \<and> (\<forall>contents data jar.
             open_read fs path = Inr contents \<and> json_load contents = Inr data
               \<and> cookiejar_from_dict data = Inr jar
             \<longrightarrow> load fs s path = Inr (True, s\<lparr>cookies := jar\<rparr>))"
proof -
  have missing: "load fs s path = Inr (False, s)" if "fs path = None"
    using that by (simp add: load_def load_cookies_def)
  have open_err: "err = OSError" if "open_read fs path = Inl err" for err
    using that by (auto simp: open_read_def split: option.splits if_splits)
  have unreadable: "load fs s path = Inr (False, s)" if "open_read fs path = Inl err" for err
    using that open_err [OF that] by (simp add: load_def load_cookies_def)
  have unparseable: "load fs s path = Inr (False, s)"
    if "open_read fs path = Inr contents" "json_load contents = Inl err" "is_Exception err"
    for contents err
    using that by (simp add: load_def load_cookies_def)
  have bad_dict: "load fs s path = Inr (False, s)"
    if "open_read fs path = Inr contents" "json_load contents = Inr data"
       "cookiejar_from_dict data = Inl err" "is_Exception err"
    for contents data err
    using that by (simp add: load_def load_cookies_def)
  have loaded: "load fs s path = Inr (True, s\<lparr>cookies := jar\<rparr>)"
    if "open_read fs path = Inr contents" "json_load contents = Inr data"
       "cookiejar_from_dict data = Inr jar"
    for contents data jar
  proof -
    have "fs path \<noteq> None"
      using that(1) by (auto simp: open_read_def split: option.splits)
    then show ?thesis
      using that by (simp add: load_def load_cookies_def)
  qed
  show ?thesis
    using missing unreadable unparseable bad_dict loaded by blast
qed

theorem load_cookies_never_fatal_witness:
  "load_cookies example_json_load example_cookiejar_from_dict example_files example_session
     ''absent.json'' = Inr (False, example_session)
   \<and> load_cookies example_json_load example_cookiejar_from_dict example_files example_session
       ''locked.json'' = Inr (False, example_session)
   \<and> load_cookies example_json_load example_cookiejar_from_dict example_files example_session
       ''broken.json'' = Inr (False, example_session)
   \<and> load_cookies example_json_load example_cookiejar_from_dict example_files example_session
       ''empty.json'' = Inr (True, example_session\<lparr>cookies := []\<rparr>)"
proof -
  note load = load_cookies_never_fatal
                [where fs = example_files and json_load = example_json_load
                   and s = example_session
                   and cookiejar_from_dict = example_cookiejar_from_dict]
  have absent: "example_files ''absent.json'' = None"
    by (simp add: example_files_def)
  have locked: "open_read example_files ''locked.json'' = Inl OSError"
    by (simp add: example_files_def open_read_def)
  have broken: "open_read example_files ''broken.json'' = Inr ''{sessionid''"
    "example_json_load ''{sessionid'' = Inl JSONDecodeError" "is_Exception JSONDecodeError"
    by (simp_all add: example_files_def open_read_def example_json_load_def)
  have empty: "open_read example_files ''empty.json'' = Inr ''{}''"
    "example_json_load ''{}'' = Inr []" "example_cookiejar_from_dict [] = Inr []"
    by (simp_all add: example_files_def open_read_def example_json_load_def
          example_cookiejar_from_dict_def)
  have 1: "load_cookies example_json_load example_cookiejar_from_dict example_files
             example_session ''absent.json'' = Inr (False, example_session)"
    using load [where path = "''absent.json''"] absent by blast
  have 2: "load_cookies example_json_load example_cookiejar_from_dict example_files
             example_session ''locked.json'' = Inr (False, example_session)"
    using load [where path = "''locked.json''"] locked by blast
  have 3: "load_cookies example_json_load example_cookiejar_from_dict example_files
             example_session ''broken.json'' = Inr (False, example_session)"
    using load [where path = "''broken.json''"] broken by blast
  have 4: "load_cookies example_json_load example_cookiejar_from_dict example_files
             example_session ''empty.json'' = Inr (True, example_session\<lparr>cookies := []\<rparr>)"
    using load [where path = "''empty.json''"] empty by blast
  show ?thesis
    using 1 2 3 4 by simp
qed

lemma save_cookies_writable:
  "writable fs path
     \<Longrightarrow> save_cookies json_dump fs s path = Inr (fs(path \<mapsto> saved_file json_dump (cookies s)))"
  by (auto simp: writable_def save_cookies_def open_write_def chmod_def saved_file_def Let_def
      split: option.splits)

text \<open>
  C9. Let the login request be answered with a success status and the envelope
  \<open>data\<close>. Whenever \<open>do_login\<close> returns, the flag it returns is true exactly when the
  envelope's error is null and its data is the string \<open>Succeeded\<close>. When that
  condition fails, the files are left as they were: no cookies are saved. When it holds
  and the cookie file can be written, the cookies the session holds after the request
  are saved to the cookie file.
\<close>

theorem do_login_success_and_cookies:
  fixes json_dump :: "(string \<times> string) list \<Rightarrow> string"
    and cookie_file :: string and fs :: filesystem
  assumes "post (make_payload uname password tfa_code) (cookies s) = (Ok data, jar)"
  defines "result \<equiv> do_login post json_dump cookie_file fs s uname password tfa_code"
  shows "(\<forall>b s' fs'. result = Inr (b, s', fs') \<longrightarrow>
            b = (env_error data = None \<and> env_data data = JString ''Succeeded''))
       \<and> (\<not> (env_error data = None \<and> env_data data = JString ''Succeeded'')
            \<longrightarrow> result = Inr (False, s\<lparr>cookies := jar\<rparr>, fs))
       \<and> (env_error data = None \<and> env_data data = JString ''Succeeded''
              \<and> writable fs cookie_file
            \<longrightarrow> result = Inr (True, s\<lparr>cookies := jar\<rparr>,
                               fs(cookie_file \<mapsto> saved_file json_dump jar)))"
proof -
  let ?success = "env_error data = None \<and> env_data data = JString ''Succeeded''"
  have failed: "result = Inr (False, s\<lparr>cookies := jar\<rparr>, fs)" if "\<not> ?success"
    using that assms(1) unfolding result_def do_login_def by (auto simp: Let_def)
  have run: "result = (case save_cookies json_dump fs (s\<lparr>cookies := jar\<rparr>) cookie_file of
                         Inl err \<Rightarrow> Inl err
                       | Inr fs' \<Rightarrow> Inr (True, s\<lparr>cookies := jar\<rparr>, fs'))" if "?success"
    using that assms(1) unfolding result_def do_login_def by (simp add: Let_def)
  have saved: "result = Inr (True, s\<lparr>cookies := jar\<rparr>, fs(cookie_file \<mapsto> saved_file json_dump jar))"
    if "?success" "writable fs cookie_file"
    using run [OF that(1)] save_cookies_writable [OF that(2), of json_dump "s\<lparr>cookies := jar\<rparr>"]
    by simp
  have flag: "b = ?success" if "result = Inr (b, s', fs')" for b s' fs'
  proof (cases ?success)
    case True
    with run that show ?thesis by (auto split: sum.splits)
  next
    case False
    with failed that show ?thesis by auto
  qed
  show ?thesis
    using flag failed saved by blast
qed

theorem do_login_success_and_cookies_witness:
  "do_login example_post example_json_dump ''cookies.json'' Map.empty
      \<lparr>cookies = [], headers = Map.empty\<rparr> ''alice'' ''secret'' None
     = Inr (True,
            \<lparr>cookies = [\<lparr>cookie_name = ''sessionid'', cookie_value = ''abc'',
                           cookie_domain = ''oj.example.org'', cookie_path = ''/''\<rparr>],
              headers = Map.empty\<rparr>,
            [''cookies.json'' \<mapsto> \<lparr>file_content = ''sessionid=abc;'', file_mode = 384\<rparr>])
   \<and> do_login example_post example_json_dump ''cookies.json'' Map.empty
      \<lparr>cookies = [], headers = Map.empty\<rparr> ''alice'' ''guess'' None
     = Inr (False, \<lparr>cookies = [], headers = Map.empty\<rparr>, Map.empty)"
proof -
  let ?s = "\<lparr>cookies = [], headers = Map.empty\<rparr> :: session"
  let ?c = "\<lparr>cookie_name = ''sessionid'', cookie_value = ''abc'',
             cookie_domain = ''oj.example.org'', cookie_path = ''/''\<rparr>"
  have good: "example_post (make_payload ''alice'' ''secret'' None) (cookies ?s)
                = (Ok \<lparr>env_error = None, env_data = JString ''Succeeded''\<rparr>, [?c])"
    by (simp add: example_post_def make_payload_def)
  have bad: "example_post (make_payload ''alice'' ''guess'' None) (cookies ?s)
                = (Ok \<lparr>env_error = Some ''error'',
                        env_data = JString ''Invalid username or password''\<rparr>, [])"
    by (simp add: example_post_def make_payload_def)
  have w: "writable Map.empty ''cookies.json''"
    by (simp add: writable_def)
  have sf: "saved_file example_json_dump [?c]
                = \<lparr>file_content = ''sessionid=abc;'', file_mode = 384\<rparr>"
    by (simp add: saved_file_def example_json_dump_def dict_from_cookiejar_def)
  have 1: "do_login example_post example_json_dump ''cookies.json'' Map.empty ?s
             ''alice'' ''secret'' None
           = Inr (True, ?s\<lparr>cookies := [?c]\<rparr>,
                  [''cookies.json'' \<mapsto> saved_file example_json_dump [?c]])"
    using do_login_success_and_cookies
            [where post = example_post and s = ?s and uname = "''alice''"
               and password = "''secret''" and tfa_code = None
               and json_dump = example_json_dump and cookie_file = "''cookies.json''"
               and fs = Map.empty, OF good] w
    by simp
  have 2: "do_login example_post example_json_dump ''cookies.json'' Map.empty ?s
             ''alice'' ''guess'' None
           = Inr (False, ?s\<lparr>cookies := []\<rparr>, Map.empty)"
    using do_login_success_and_cookies
            [where post = example_post and s = ?s and uname = "''alice''"
               and password = "''guess''" and tfa_code = None
               and json_dump = example_json_dump and cookie_file = "''cookies.json''"
               and fs = Map.empty, OF bad]
    by simp
  show ?thesis
    using 1 2 unfolding sf by simp
qed

end
